theory Spec2Isabelle
  imports Main "HOL-Library.AList" "HOL-Library.Char_ord" "HOL-Library.List_Lexorder"
begin

section \<open>The request iterator: \<^verbatim>\<open>jina/serve/stream/helper.py\<close>\<close>

subsection \<open>Data\<close>

text \<open>
  A client iterator yields Python objects. The only distinction \<^verbatim>\<open>__anext__\<close> makes
  between them is \<^verbatim>\<open>request is None\<close>, so a yielded value is either Python's
  \<^verbatim>\<open>None\<close> or a request.
\<close>

datatype 'r pyval = PyNone | Req 'r

datatype py_error = StopIteration | StopAsyncIteration | AttributeError | UnboundLocalError

text \<open>
  \<^verbatim>\<open>class RequestsCounter: count = 0\<close>. The object is shared with other tasks of the
  event loop, which update \<^verbatim>\<open>count\<close> while \<^verbatim>\<open>__anext__\<close> is suspended in
  \<^verbatim>\<open>asyncio.sleep(0)\<close>. A shared counter is therefore given by its history: \<open>c k\<close> is the
  object as \<^verbatim>\<open>__anext__\<close> finds it at its \<open>k\<close>-th evaluation of the loop condition
  (counted from 0).
\<close>

record RequestsCounter =
  count :: int

type_synonym counter_history = "nat \<Rightarrow> RequestsCounter"

text \<open>
  The object wrapped by the iterator. \<^verbatim>\<open>__anext__\<close> inspects it with
  \<^verbatim>\<open>isinstance(_, Iterator)\<close> and \<^verbatim>\<open>isinstance(_, AsyncIterator)\<close>; \<open>pending\<close> are the
  values it has still to yield, in order.
\<close>

record 'r client_iterator =
  is_Iterator :: bool
  is_AsyncIterator :: bool
  pending :: "'r pyval list"

text \<open>\<^verbatim>\<open>iterator.__next__()\<close>: the next value, or \<^verbatim>\<open>StopIteration\<close> once exhausted.\<close>

definition next_sync :: "'r client_iterator \<Rightarrow> (py_error + 'r pyval) \<times> 'r client_iterator" where
  "next_sync it =
     (case pending it of
        [] \<Rightarrow> (Inl StopIteration, it)
      | x # xs \<Rightarrow> (Inr x, it\<lparr>pending := xs\<rparr>))"

text \<open>\<^verbatim>\<open>await iterator.__anext__()\<close>: the next value, or \<^verbatim>\<open>StopAsyncIteration\<close>.\<close>

definition next_async :: "'r client_iterator \<Rightarrow> (py_error + 'r pyval) \<times> 'r client_iterator" where
  "next_async it =
     (case pending it of
        [] \<Rightarrow> (Inl StopAsyncIteration, it)
      | x # xs \<Rightarrow> (Inr x, it\<lparr>pending := xs\<rparr>))"

text \<open>
  \<^verbatim>\<open>AsyncRequestsIterator.__init__\<close> stores its three arguments. \<open>request_counter\<close> is
  \<^verbatim>\<open>Optional\<close> and defaults to \<^verbatim>\<open>None\<close>.
\<close>

record 'r AsyncRequestsIterator =
  iterator :: "'r client_iterator"
  request_counter :: "counter_history option"
  prefetch :: int

subsection \<open>Operations\<close>

text \<open>
  \<^verbatim>\<open>iterator__next__\<close> (lines 47-57): \<^verbatim>\<open>StopIteration\<close> is caught and turned into
  \<^verbatim>\<open>None\<close>; any other exception propagates.
\<close>

definition iterator_next ::
  "'r AsyncRequestsIterator \<Rightarrow> (py_error + 'r pyval) \<times> 'r AsyncRequestsIterator" where
  "iterator_next self =
     (case next_sync (iterator self) of
        (Inl e, it') \<Rightarrow>
          if e = StopIteration then (Inr PyNone, self\<lparr>iterator := it'\<rparr>)
          else (Inl e, self\<lparr>iterator := it'\<rparr>)
      | (Inr v, it') \<Rightarrow> (Inr v, self\<lparr>iterator := it'\<rparr>))"

text \<open>
  The loop of lines 64-65,
  \<^verbatim>\<open>while self._request_counter.count >= self._prefetch: await asyncio.sleep(0)\<close>.
  It may spin forever; the result is the index of the evaluation at which the condition
  was found false, which is also the number of sleeps performed.
\<close>

partial_function (option) anext_wait :: "counter_history \<Rightarrow> int \<Rightarrow> nat \<Rightarrow> nat option" where
  "anext_wait c p k = (if p \<le> count (c k) then anext_wait c p (Suc k) else Some k)"

text \<open>
  Lines 66-88 of \<^verbatim>\<open>__anext__\<close>: the pull from the wrapped object. When neither
  \<^verbatim>\<open>isinstance\<close> test holds, no branch assigns \<^verbatim>\<open>request\<close> and
  \<^verbatim>\<open>return request\<close> raises \<^verbatim>\<open>UnboundLocalError\<close>.
\<close>

definition anext_pull ::
  "'r AsyncRequestsIterator \<Rightarrow> (py_error + 'r pyval) \<times> 'r AsyncRequestsIterator" where
  "anext_pull self =
     (if is_Iterator (iterator self) then
        (case iterator_next self of
           (Inl e, self') \<Rightarrow> (Inl e, self')
         | (Inr request, self') \<Rightarrow>
             if request = PyNone then (Inl StopAsyncIteration, self')
             else (Inr request, self'))
      else if is_AsyncIterator (iterator self) then
        (case next_async (iterator self) of
           (r, it') \<Rightarrow> (r, self\<lparr>iterator := it'\<rparr>))
      else (Inl UnboundLocalError, self))"

text \<open>
  \<^verbatim>\<open>__anext__\<close> (lines 62-88). \<open>None\<close>: the call never returns. \<open>Some (k, r, self')\<close>:
  it returns or raises \<open>r\<close> after \<open>k\<close> sleeps, leaving the object as \<open>self'\<close>. With
  \<^verbatim>\<open>prefetch > 0\<close> and no counter, \<^verbatim>\<open>self._request_counter.count\<close> raises
  \<^verbatim>\<open>AttributeError\<close>.
\<close>

definition anext ::
  "'r AsyncRequestsIterator \<Rightarrow>
     (nat \<times> (py_error + 'r pyval) \<times> 'r AsyncRequestsIterator) option" where
  "anext self =
     (if prefetch self > 0 then
        (case request_counter self of
           None \<Rightarrow> Some (0, Inl AttributeError, self)
         | Some c \<Rightarrow>
             (case anext_wait c (prefetch self) 0 of
                None \<Rightarrow> None
              | Some k \<Rightarrow> Some (k, anext_pull self)))
      else Some (0, anext_pull self))"

text \<open>
  What the loop has established when it is left at evaluation \<open>m\<close>, having started at
  evaluation \<open>k\<close>: the counter is below \<open>p\<close> now and was not at any earlier evaluation.
\<close>

definition wait_post :: "counter_history \<Rightarrow> int \<Rightarrow> nat \<Rightarrow> nat \<Rightarrow> bool" where
  "wait_post c p k m \<longleftrightarrow>
     k \<le> m \<and> count (c m) < p \<and> (\<forall>j. k \<le> j \<and> j < m \<longrightarrow> p \<le> count (c j))"

subsection \<open>The consumer of the iterator\<close>

text \<open>
  Modelled from the spec: the Gateway's streaming loop, which consumes the request iterator
  and owns the in-flight counter, is not among the sources. Spec, 3: the request counter
  is, per Gateway, an integer of in-flight client requests. The state of the loop is this
  number and the client's iterator.
\<close>

record 'r gateway_state =
  in_flight :: int
  client :: "'r client_iterator"

text \<open>
  Modelled from the spec: 4.3, steps 1 and 5. A request that completes is discounted. A
  request is read from the client's iterator by \<^verbatim>\<open>__anext__\<close> above, called with the
  Gateway's prefetch value \<open>P\<close> and the Gateway's counter, and is counted when it is
  handed over; requests are read one at a time, so that while the call waits the counter
  changes by completions only: it starts at the number in flight and does not grow. A call
  that raises ends the reading and counts nothing.
\<close>

inductive gateway_step :: "int \<Rightarrow> 'r gateway_state \<Rightarrow> 'r gateway_state \<Rightarrow> bool"
  for P :: int where
  completes:
    "0 < in_flight s \<Longrightarrow> gateway_step P s (s\<lparr>in_flight := in_flight s - 1\<rparr>)"
| admits:
    "anext \<lparr>iterator = client s, request_counter = Some c, prefetch = P\<rparr>
       = Some (k, Inr v, self') \<Longrightarrow>
     count (c 0) = in_flight s \<Longrightarrow>
     \<forall>j<k. count (c (Suc j)) \<le> count (c j) \<Longrightarrow>
     gateway_step P s \<lparr>in_flight = count (c k) + 1, client = iterator self'\<rparr>"
| ends:
    "anext \<lparr>iterator = client s, request_counter = Some c, prefetch = P\<rparr>
       = Some (k, Inl e, self') \<Longrightarrow>
     count (c 0) = in_flight s \<Longrightarrow>
     \<forall>j<k. count (c (Suc j)) \<le> count (c j) \<Longrightarrow>
     gateway_step P s \<lparr>in_flight = count (c k), client = iterator self'\<rparr>"

section \<open>The data plane: Worker, Head and Gateway\<close>

text \<open>
  The sources hold the tests of the three runtimes
  (\<^verbatim>\<open>tests/integration/runtimes/test_runtimes.py\<close>,
  \<^verbatim>\<open>tests/integration/override_config_params/worker/test_override_config_params.py\<close>,
  \<^verbatim>\<open>tests/unit/orchestrate/deployments/test_deployments.py\<close>)
  but not the runtimes. What the tests build (graphs, executors, client input) is taken
  from the tests; what the runtimes do with it is taken from the spec, in the definitions
  marked so below, and where the spec leaves a choice, from what the tests expect.
\<close>

subsection \<open>Requests and documents\<close>

text \<open>
  Modelled from the spec: the document type is not among the sources. Spec, 3: a document
  is opaque to the core but for merge operations and identity, which is by its id; of its
  other fields, the text and the tags are the ones the tests' executors write.
\<close>

record document =
  doc_id :: nat
  doc_text :: string
  tags :: "(string \<times> nat) list"

type_synonym parameters = "(string \<times> string) list"

text \<open>
  Modelled from the spec: the request type is not among the sources. Spec, 3: a request
  carries a request id, an endpoint name, an ordered list of documents, a parameters map
  and a routing trace, the list of the stage names it has visited.
\<close>

record request =
  request_id :: nat
  endpoint :: string
  docs :: "document list"
  parameters :: parameters
  routes :: "string list"

subsection \<open>Worker\<close>

text \<open>
  An executor is a bundle of handler methods, as the tests write them: a method is
  declared with \<^verbatim>\<open>@requests\<close> (a default handler), with \<^verbatim>\<open>@requests(on=[...])\<close>
  (explicit endpoints), or undecorated; its body maps the documents and the parameters to
  the new documents.
\<close>

type_synonym handler = "document list \<Rightarrow> parameters \<Rightarrow> document list"

datatype binding = Undecorated | Default | On "string list"

record executor_method =
  method_name :: string
  declared :: binding
  body :: handler

type_synonym executor = "executor_method list"

text \<open>
  Modelled from the spec: the \<^verbatim>\<open>requests\<close> decorator is not among the sources. Spec,
  4.1, step 1: a handler marked as a default handler binds to endpoint \<^verbatim>\<open>/default\<close>; a
  handler may declare an explicit list of endpoints to serve.
\<close>

definition declared_bindings :: "executor \<Rightarrow> (string \<times> string) list" where
  "declared_bindings ex =
     concat (map (\<lambda>m. case declared m of
                          Undecorated \<Rightarrow> []
                        | Default \<Rightarrow> [(''/default'', method_name m)]
                        | On eps \<Rightarrow> map (\<lambda>e. (e, method_name m)) eps) ex)"

text \<open>
  Modelled from the spec: the construction of the Worker's endpoint table is not among the
  sources. Spec, 4.1, step 1: the pod's launch arguments may override bindings
  (\<^verbatim>\<open>uses_requests\<close>, from endpoint to handler name), which take precedence over
  declarations. Spec, 9: overrides from launch arguments are applied as map merges at
  construction.
\<close>

definition endpoint_table :: "executor \<Rightarrow> (string \<times> string) list \<Rightarrow> (string \<rightharpoonup> string)" where
  "endpoint_table ex uses_requests = map_of (declared_bindings ex) ++ map_of uses_requests"

text \<open>
  Modelled from the spec: the lookup of a handler by its name is not among the sources.
  The table of 4.1 maps an endpoint to a handler; the launch arguments name the handler,
  which is a method of the executor.
\<close>

definition find_method :: "executor \<Rightarrow> string \<Rightarrow> executor_method option" where
  "find_method ex n = find (\<lambda>m. method_name m = n) ex"

text \<open>
  Modelled from the spec: the Worker's endpoint resolution is not among the sources. Spec,
  4.1, steps 1 and 2: the request's endpoint is looked up in the table; the default handler
  serves any endpoint not otherwise bound; there may be no handler at all.
\<close>

definition resolve :: "executor \<Rightarrow> (string \<rightharpoonup> string) \<Rightarrow> string \<Rightarrow> executor_method option" where
  "resolve ex tbl ep =
     (case tbl ep of
        Some n \<Rightarrow> find_method ex n
      | None \<Rightarrow> (case tbl ''/default'' of Some n \<Rightarrow> find_method ex n | None \<Rightarrow> None))"

text \<open>
  A worker as the tests start it: its name, its executor (\<^verbatim>\<open>uses\<close>) and the overrides
  of the endpoint bindings (\<^verbatim>\<open>uses_requests\<close>).
\<close>

record worker =
  worker_name :: string
  uses :: executor
  uses_requests :: "(string \<times> string) list"

text \<open>
  Modelled from the spec: the Worker runtime is not among the sources. Spec, 4.1, steps 1
  to 5: look the endpoint up; if no handler matches and no default exists, return the
  request unchanged; otherwise replace the document list by the handler's return value,
  append the worker's name to the routing trace and return the request. Handlers are total
  functions here: a handler that raises (4.1, failure semantics) is outside the model.
\<close>

definition process :: "worker \<Rightarrow> request \<Rightarrow> request" where
  "process w req =
     (case resolve (uses w) (endpoint_table (uses w) (uses_requests w)) (endpoint req) of
        None \<Rightarrow> req
      | Some m \<Rightarrow> req\<lparr>docs := body m (docs req) (parameters req),
                       routes := routes req @ [worker_name w]\<rparr>)"

subsection \<open>Head\<close>

text \<open>\<^verbatim>\<open>PollingType.ANY\<close> and \<^verbatim>\<open>PollingType.ALL\<close> of the tests.\<close>

datatype polling = PollingANY | PollingALL

text \<open>
  Modelled from the spec: the Head runtime is not among the sources. Spec, 3 and 4.2: the
  connection table maps a shard index to the replicas of that shard; polling is a default
  value with endpoint-specific overrides and the wildcard \<^verbatim>\<open>*\<close>; a pre-processor
  (uses-before) and a reducer (uses-after) are optional; there is one round-robin counter
  across shards and one per shard, each kept modulo its pool size. Workers always answer
  here: retries and unhealthy connections are outside the model.
\<close>

record head =
  connection_list :: "worker list list"
  polling_default :: polling
  polling_by_endpoint :: "(string \<times> polling) list"
  uses_before :: "worker option"
  uses_after :: "worker option"
  shard_counter :: nat
  replica_counters :: "nat list"

text \<open>
  Modelled from the spec: 4.2, step 2. Look the request's endpoint up in the polling map;
  fall back to \<^verbatim>\<open>*\<close>, then to the default.
\<close>

definition resolve_polling :: "head \<Rightarrow> string \<Rightarrow> polling" where
  "resolve_polling h ep =
     (case map_of (polling_by_endpoint h) ep of
        Some p \<Rightarrow> p
      | None \<Rightarrow> (case map_of (polling_by_endpoint h) ''*'' of
                   Some p \<Rightarrow> p
                 | None \<Rightarrow> polling_default h))"

text \<open>
  Modelled from the spec: 4.2, step 3 and the round-robin state. Within a shard, one
  replica is picked in round-robin order: the replica the shard's counter points at
  serves the request and the counter moves on, modulo the pool size. A shard without
  replicas, or an index outside the table, answers nothing.
\<close>

definition send_to_shard :: "head \<Rightarrow> nat \<Rightarrow> request \<Rightarrow> request option \<times> head" where
  "send_to_shard h i req =
     (if i < length (connection_list h) \<and> connection_list h ! i \<noteq> [] then
        (let replicas = connection_list h ! i;
             r = (if i < length (replica_counters h) then replica_counters h ! i else 0)
         in (Some (process (replicas ! (r mod length replicas)) req),
             h\<lparr>replica_counters := (replica_counters h)[i := (r + 1) mod length replicas]\<rparr>))
      else (None, h))"

text \<open>
  Modelled from the spec: 4.2, step 4. Union the parameter maps with the last writer
  winning, by shard index.
\<close>

definition merge_parameters :: "parameters list \<Rightarrow> parameters" where
  "merge_parameters pss = fold (\<lambda>(k, v). AList.update k v) (concat pss) []"

text \<open>
  Modelled from the spec: 4.2, step 4, the merge rule as a reducer (uses-after) receives
  it. Concatenate the document lists in shard-index order, union the parameter maps,
  concatenate the route traces in order; the id and the endpoint are those of the request
  that was sent. The documents are all kept: \<^verbatim>\<open>test_runtimes_with_executor\<close>
  (test_runtimes.py, lines 442-452) expects, behind ten shards and in front of the
  reducer, ten copies of the input document.
\<close>

definition merge :: "request \<Rightarrow> request list \<Rightarrow> request" where
  "merge req rs =
     req\<lparr>docs := concat (map docs rs),
         parameters := merge_parameters (map parameters rs),
         routes := concat (map routes rs)\<rparr>"

text \<open>
  Modelled from the spec: 3 and 4.2, step 4. Documents have identity by id: in the list
  that the Head itself makes of the document lists, taken in shard-index order, a document
  whose id is already there is not added again. The tests fix this reading:
  \<^verbatim>\<open>test_pod_activates_shards\<close> (test_deployments.py, lines 240-258) and
  \<^verbatim>\<open>test_dynamic_polling_with_config\<close> (lines 431-476) expect one copy of the source
  document and one added document for each shard.
\<close>

definition reduce_docs :: "document list list \<Rightarrow> document list" where
  "reduce_docs dss =
     fold (\<lambda>d acc. if doc_id d \<in> set (map doc_id acc) then acc else acc @ [d]) (concat dss) []"

text \<open>
  Modelled from the spec: 4.2, step 4, the merge the Head makes when no reducer is
  configured. The documents are reduced by id; the parameter maps and the route traces
  are merged as above.
\<close>

definition reduce :: "request \<Rightarrow> request list \<Rightarrow> request" where
  "reduce req rs =
     req\<lparr>docs := reduce_docs (map docs rs),
         parameters := merge_parameters (map parameters rs),
         routes := concat (map routes rs)\<rparr>"

text \<open>
  Modelled from the spec: 4.2, steps 4 and 5. What the Head makes of the responses of the
  shards: nothing came back, and the request stays as it was; one response needs no
  merge; several responses are merged for the reducer when one is configured, and
  reduced by the Head otherwise.
\<close>

definition combine :: "head \<Rightarrow> request \<Rightarrow> request list \<Rightarrow> request" where
  "combine h req rs =
     (case rs of
        [] \<Rightarrow> req
      | [r] \<Rightarrow> r
      | r # rs' \<Rightarrow> (if uses_after h = None then reduce req (r # rs') else merge req (r # rs')))"

text \<open>
  Modelled from the spec: 4.2, step 3, ALL. The request is sent to every shard of the
  list; the responses are kept in the order of the list. The concurrent sends of the
  source are made here one after the other.
\<close>

fun send_to_shards :: "head \<Rightarrow> nat list \<Rightarrow> request \<Rightarrow> request list \<times> head" where
  "send_to_shards h [] req = ([], h)"
| "send_to_shards h (i # is) req =
     (case send_to_shard h i req of
        (r, h') \<Rightarrow> (case send_to_shards h' is req of
                      (rs, h'') \<Rightarrow> ((case r of None \<Rightarrow> rs | Some x \<Rightarrow> x # rs), h'')))"

text \<open>
  Modelled from the spec: 4.2, steps 3 and 4, ALL. Send the request to every shard, in
  shard-index order, await all responses and make one of them.
\<close>

definition dispatch_all :: "head \<Rightarrow> request \<Rightarrow> request \<times> head" where
  "dispatch_all h req =
     (case send_to_shards h [0..<length (connection_list h)] req of
        (rs, h') \<Rightarrow> (combine h req rs, h'))"

text \<open>
  Modelled from the spec: 4.2, step 3, ANY. Exactly one shard, picked in round-robin order
  across shards, serves the request; nothing is merged.
\<close>

definition dispatch_any :: "head \<Rightarrow> request \<Rightarrow> request \<times> head" where
  "dispatch_any h req =
     (if connection_list h = [] then (req, h)
      else
        (let i = shard_counter h mod length (connection_list h);
             h1 = h\<lparr>shard_counter := (shard_counter h + 1) mod length (connection_list h)\<rparr>
         in case send_to_shard h1 i req of
              (None, h2) \<Rightarrow> (req, h2)
            | (Some r, h2) \<Rightarrow> (r, h2)))"

text \<open>
  Modelled from the spec: 4.2, the algorithm per request, steps 1 to 6. Pre-process with
  uses-before when configured, resolve the polling, dispatch, and post-process with
  uses-after when configured.
\<close>

definition head_process :: "head \<Rightarrow> request \<Rightarrow> request \<times> head" where
  "head_process h req =
     (let working = (case uses_before h of None \<Rightarrow> req | Some w \<Rightarrow> process w req);
          (resp, h') = (case resolve_polling h (endpoint working) of
                          PollingANY \<Rightarrow> dispatch_any h working
                        | PollingALL \<Rightarrow> dispatch_all h working)
      in ((case uses_after h of None \<Rightarrow> resp | Some w \<Rightarrow> process w resp), h'))"

text \<open>
  \<^verbatim>\<open>_create_head_runtime(port, connection_list_dict, name, polling, uses_before,
  uses_after)\<close> (test_runtimes.py, lines 693-714): the Head is given its connection
  list, its polling and its optional pre- and post-processor; its counters start at zero.
\<close>

definition create_head ::
  "worker list list \<Rightarrow> polling \<Rightarrow> worker option \<Rightarrow> worker option \<Rightarrow> head" where
  "create_head table p pre post =
     \<lparr>connection_list = table, polling_default = p, polling_by_endpoint = [],
      uses_before = pre, uses_after = post,
      shard_counter = 0, replica_counters = replicate (length table) 0\<rparr>"

subsection \<open>Gateway\<close>

type_synonym topology = "(string \<times> string list) list"

text \<open>
  Modelled from the spec: the Gateway runtime is not among the sources. Spec, 3 and 4.3:
  the topology graph is a JSON object from a pod name to the list of its successors, with
  the key \<^verbatim>\<open>start-gateway\<close> listing the roots and \<^verbatim>\<open>end-gateway\<close> as the sink; the
  address table maps a pod name to the pod's Head. Each pod has one Head here, so that the
  round-robin over a pod's addresses has nothing to choose.
\<close>

record gateway =
  graph_description :: topology
  deployments_addresses :: "(string \<times> head) list"

text \<open>
  Modelled from the spec: 4.3, inputs. The successors of a node are the list under its
  key; a node without a key has none.
\<close>

definition successors :: "topology \<Rightarrow> string \<Rightarrow> string list" where
  "successors g p = (case map_of g p of None \<Rightarrow> [] | Some ss \<Rightarrow> ss)"

text \<open>
  Modelled from the spec: 3. The two distinguished nodes of the graph, the sole source and
  the sole sink; every other node is a pod.
\<close>

definition is_gateway :: "string \<Rightarrow> bool" where
  "is_gateway p \<longleftrightarrow> p = ''start-gateway'' \<or> p = ''end-gateway''"

text \<open>
  Modelled from the spec: 3. The pods of a graph: the nodes named in it, as keys or as
  successors, but for the two gateways; in the order of their first mention.
\<close>

definition pod_names :: "topology \<Rightarrow> string list" where
  "pod_names g =
     filter (\<lambda>p. \<not> is_gateway p) (rev (remdups (rev (map fst g @ concat (map snd g)))))"

text \<open>
  Modelled from the spec: 4.3, step 3, \<open>preds(P)\<close>. The predecessors of a node are the
  keys that list it as a successor.
\<close>

definition predecessors :: "topology \<Rightarrow> string \<Rightarrow> string list" where
  "predecessors g p = filter (\<lambda>q. p \<in> set (successors g q)) (remdups (map fst g))"

text \<open>
  Modelled from the spec: 4.3 and 9 (each request carries the pending and received
  responses of the pods). The traversal of one request: the responses received so far, by
  pod and in the order of arrival, and the Heads, whose round-robin counters move.
\<close>

record traversal =
  responded :: "(string \<times> request) list"
  heads :: "(string \<times> head) list"

text \<open>
  Modelled from the spec: 4.3, step 3. A pod is sent the request once the responses of all
  its predecessors are there; \<^verbatim>\<open>start-gateway\<close> as a predecessor stands for the
  client's request (step 2). A pod is sent a request once, and needs an address.
\<close>

definition ready :: "topology \<Rightarrow> traversal \<Rightarrow> string \<Rightarrow> bool" where
  "ready g st p \<longleftrightarrow>
     p \<notin> set (map fst (responded st)) \<and>
     predecessors g p \<noteq> [] \<and>
     list_all (\<lambda>q. q = ''start-gateway'' \<or> q \<in> set (map fst (responded st))) (predecessors g p) \<and>
     map_of (heads st) p \<noteq> None"

text \<open>
  Modelled from the spec: 4.3, step 3, and 9. The responses of the predecessors of a node,
  in the lexicographic order of the pod names, which the spec fixes for the merge.
\<close>

definition inputs_of :: "topology \<Rightarrow> request \<Rightarrow> traversal \<Rightarrow> string \<Rightarrow> request list" where
  "inputs_of g req st p =
     concat (map (\<lambda>q. if q = ''start-gateway'' then [req]
                       else (case map_of (responded st) q of None \<Rightarrow> [] | Some r \<Rightarrow> [r]))
                 (sort (predecessors g p)))"

text \<open>
  Modelled from the spec: 4.3, step 3, fan-in: the responses of the predecessors are merged
  by the rule of the Head before the node gets them. A single response needs no merge;
  several are reduced by document id, as the Head does with the responses of its shards.
\<close>

definition fan_in :: "request list \<Rightarrow> request option" where
  "fan_in rs = (case rs of [] \<Rightarrow> None | [r] \<Rightarrow> Some r | r # rs' \<Rightarrow> Some (reduce r (r # rs')))"

text \<open>
  Modelled from the spec: 4.3, step 3. Merge the predecessors' responses, send the merged
  request to the pod's Head, and keep the response for the successors.
\<close>

definition run_pod :: "topology \<Rightarrow> request \<Rightarrow> traversal \<Rightarrow> string \<Rightarrow> traversal" where
  "run_pod g req st p =
     (case map_of (heads st) p of
        None \<Rightarrow> st
      | Some h \<Rightarrow>
          (let working = (case fan_in (inputs_of g req st p) of None \<Rightarrow> req | Some r \<Rightarrow> r);
               (resp, h') = head_process h working
           in st\<lparr>responded := responded st @ [(p, resp)],
                 heads := AList.update p h' (heads st)\<rparr>))"

text \<open>
  Modelled from the spec: 4.3, steps 2 to 5. Pods are run as they become ready, until
  none is: then every path has reached \<^verbatim>\<open>end-gateway\<close> or ended at a hanging pod, and
  the request is complete. The concurrent tasks of the source are run here one after the
  other, the first ready pod of the graph first.
\<close>

function traverse :: "topology \<Rightarrow> request \<Rightarrow> traversal \<Rightarrow> traversal" where
  "traverse g req st =
     (case find (ready g st) (pod_names g) of
        None \<Rightarrow> st
      | Some p \<Rightarrow> traverse g req (run_pod g req st p))"
  by pat_completeness auto

termination traverse
proof (relation "measure (\<lambda>(g, req, st). card (set (pod_names g) - set (map fst (responded st))))")
  show "wf (measure (\<lambda>(g, req, st). card (set (pod_names g) - set (map fst (responded st)))))"
    by simp
next
  fix g req st p
  assume f: "find (ready g st) (pod_names g) = Some p"
  then have p: "p \<in> set (pod_names g)" and r: "ready g st p"
    by (auto simp: find_Some_iff)
  from r have new: "p \<notin> set (map fst (responded st))" by (simp add: ready_def)
  from r have "map fst (responded (run_pod g req st p)) = map fst (responded st) @ [p]"
    by (auto simp: run_pod_def ready_def Let_def split: option.splits prod.splits)
  with p new have "set (pod_names g) - set (map fst (responded (run_pod g req st p)))
          \<subset> set (pod_names g) - set (map fst (responded st))"
    by auto
  then have "card (set (pod_names g) - set (map fst (responded (run_pod g req st p))))
          < card (set (pod_names g) - set (map fst (responded st)))"
    by (intro psubset_card_mono) auto
  then show "((g, req, run_pod g req st p), (g, req, st))
          \<in> measure (\<lambda>(g, req, st). card (set (pod_names g) - set (map fst (responded st))))"
    by simp
qed

declare traverse.simps [simp del]

text \<open>
  Modelled from the spec: 4.3, the algorithm per client request, and 6 (a single final
  document list). The request is walked through the graph, from a traversal in which no
  pod has responded yet; when no pod is left to run, the request is complete and the
  client is answered once: \<^verbatim>\<open>end-gateway\<close> gets the responses of its predecessors as
  any node with several predecessors does, merged into one. The tests fix the number:
  \<^verbatim>\<open>test_runtimes_flow_topology\<close> (test_runtimes.py, lines 196-211) expects 20
  responses for 20 requests on a graph in which two pods lead to \<^verbatim>\<open>end-gateway\<close>. The
  Heads keep their counters for the next request.
\<close>

definition handle_request :: "gateway \<Rightarrow> request \<Rightarrow> request list \<times> gateway" where
  "handle_request gw req =
     (let st = traverse (graph_description gw) req
                 \<lparr>responded = [], heads = deployments_addresses gw\<rparr>
      in ((case fan_in (inputs_of (graph_description gw) req st ''end-gateway'') of
             None \<Rightarrow> []
           | Some r \<Rightarrow> [r]),
          gw\<lparr>deployments_addresses := heads st\<rparr>))"

text \<open>
  Modelled from the spec: 4.3. The client's stream of requests; the requests are served
  here one after the other, and the responses are streamed back in that order.
\<close>

fun stream :: "gateway \<Rightarrow> request list \<Rightarrow> request list \<times> gateway" where
  "stream gw [] = ([], gw)"
| "stream gw (req # reqs) =
     (case handle_request gw req of
        (out, gw') \<Rightarrow> (case stream gw' reqs of (outs, gw'') \<Rightarrow> (out @ outs, gw'')))"



text \<open>
  Modelled from the spec: 3, the invariants of the topology graph. The graph is acyclic:
  some numbering of the nodes grows along every edge.
\<close>

definition acyclic_by :: "(string \<Rightarrow> nat) \<Rightarrow> topology \<Rightarrow> bool" where
  "acyclic_by rank g \<longleftrightarrow> list_all (\<lambda>(q, ss). list_all (\<lambda>p. rank q < rank p) ss) g"

text \<open>
  Modelled from the spec: 3 and 7. Every pod is reachable from \<^verbatim>\<open>start-gateway\<close>, which
  in an acyclic graph is to say that every pod has a predecessor; \<^verbatim>\<open>end-gateway\<close> is a
  sink; and every pod has an address, a missing one being fatal at the start of the
  Gateway.
\<close>

definition well_formed :: "gateway \<Rightarrow> bool" where
  "well_formed gw \<longleftrightarrow>
     list_all (\<lambda>p. predecessors (graph_description gw) p \<noteq> [] \<and>
                   map_of (deployments_addresses gw) p \<noteq> None)
              (pod_names (graph_description gw)) \<and>
     successors (graph_description gw) ''end-gateway'' = []"

text \<open>
  What holds of a traversal at every moment, \<open>hs\<close> being the address table it started
  from: no pod has responded twice, only pods of the graph respond, and every pod keeps
  its Head.
\<close>

definition traversal_inv :: "topology \<Rightarrow> (string \<times> head) list \<Rightarrow> traversal \<Rightarrow> bool" where
  "traversal_inv g hs st \<longleftrightarrow>
     distinct (map fst (responded st)) \<and>
     set (map fst (responded st)) \<subseteq> set (pod_names g) \<and>
     fst ` set (heads st) = fst ` set hs"

subsection \<open>What the tests build\<close>

text \<open>
  \<^verbatim>\<open>async_inputs\<close> (test_runtimes.py, lines 743-745): twenty documents with the text
  \<^verbatim>\<open>client0-Request\<close>. A new document is given an id of its own; \<open>ids i\<close> is the id
  of the \<open>i\<close>-th document.
\<close>

definition async_inputs :: "(nat \<Rightarrow> nat) \<Rightarrow> document list" where
  "async_inputs ids =
     map (\<lambda>i. \<lparr>doc_id = ids i, doc_text = ''client0-Request'', tags = []\<rparr>) [0..<20]"

text \<open>
  Modelled from the spec: the Client is not among the sources. Spec, 1: clients submit
  streams of requests, each carrying a batch of documents. The tests call
  \<^verbatim>\<open>c.post('/', inputs=async_inputs, request_size=1)\<close>: with a request size of one,
  each document travels in a request of its own, to the endpoint given.
\<close>

definition post :: "string \<Rightarrow> document list \<Rightarrow> request list" where
  "post on inputs =
     map (\<lambda>(i, d). \<lparr>request_id = i, endpoint = on, docs = [d], parameters = [], routes = []\<rparr>)
         (enumerate 0 inputs)"

text \<open>
  Modelled from the spec: the default executor is not among the sources. Spec, 8, the
  trivial scenario: a worker started without an executor argument, as
  \<^verbatim>\<open>_create_worker_runtime(worker_port)\<close> does, runs the identity executor. It declares
  no handler, so that every request is returned unchanged (4.1, step 2).
\<close>

definition BaseExecutor :: executor where
  "BaseExecutor = []"

text \<open>
  \<^verbatim>\<open>_create_worker_runtime(port, name, executor)\<close> (lines 683-690): a worker of the
  given name and executor, with no override of the endpoint bindings.
\<close>

definition create_worker_runtime :: "string \<Rightarrow> executor \<Rightarrow> worker" where
  "create_worker_runtime name ex = \<lparr>worker_name = name, uses = ex, uses_requests = []\<rparr>"

text \<open>
  \<^verbatim>\<open>NameChangeExecutor\<close> (lines 655-663): the default handler appends a document named
  after the worker; \<open>new_id\<close> is the id the new document is given.
\<close>

definition NameChangeExecutor :: "string \<Rightarrow> nat \<Rightarrow> executor" where
  "NameChangeExecutor name new_id =
     [\<lparr>method_name = ''foo'', declared = Default,
       body = (\<lambda>ds _. ds @ [\<lparr>doc_id = new_id, doc_text = name, tags = []\<rparr>])\<rparr>]"

text \<open>
  A gateway in front of one pod: the graph
  \<^verbatim>\<open>{"start-gateway": ["pod0"], "pod0": ["end-gateway"]}\<close> of the tests.
\<close>

definition single_pod_graph :: topology where
  "single_pod_graph = [(''start-gateway'', [''pod0'']), (''pod0'', [''end-gateway''])]"

text \<open>
  \<^verbatim>\<open>_create_gateway_runtime(graph_description, pod_addresses, port)\<close> (lines 717-740)
  with this graph and the address of the Head of \<^verbatim>\<open>pod0\<close>.
\<close>

definition single_pod_gateway :: "head \<Rightarrow> gateway" where
  "single_pod_gateway h =
     \<lparr>graph_description = single_pod_graph, deployments_addresses = [(''pod0'', h)]\<rparr>"

text \<open>
  \<^verbatim>\<open>test_runtimes_trivial_topology\<close> (lines 21-92): one worker with the default
  executor behind a Head with the connection list \<^verbatim>\<open>{'0': [worker]}\<close> and the default
  polling \<^verbatim>\<open>ANY\<close>.
\<close>

definition trivial_topology :: gateway where
  "trivial_topology =
     single_pod_gateway
       (create_head [[create_worker_runtime '''' BaseExecutor]] PollingANY None None)"

text \<open>\<^verbatim>\<open>complete_graph_dict\<close> (lines 95-108).\<close>

definition complete_graph_dict :: topology where
  "complete_graph_dict =
     [(''start-gateway'', [''pod0'', ''pod4'', ''pod6'']),
      (''pod0'', [''pod1'', ''pod2'']),
      (''pod1'', [''end-gateway'']),
      (''pod2'', [''pod3'']),
      (''pod4'', [''pod5'']),
      (''merger'', [''pod_last'']),
      (''pod5'', [''merger'']),
      (''pod3'', [''merger'']),
      (''pod6'', []),
      (''pod_last'', [''end-gateway''])]"

text \<open>
  \<^verbatim>\<open>test_runtimes_flow_topology\<close> (lines 111-215) without pre- and post-processors:
  every pod of the graph has one worker with the default executor behind a Head with
  polling \<^verbatim>\<open>ANY\<close>.
\<close>

definition flow_topology :: "topology \<Rightarrow> gateway" where
  "flow_topology g =
     \<lparr>graph_description = g,
      deployments_addresses =
        map (\<lambda>pod. (pod, create_head [[create_worker_runtime (pod @ ''/worker'') BaseExecutor]]
                            PollingANY None None))
            (filter (\<lambda>pod. \<not> is_gateway pod) (map fst g))\<rparr>"

text \<open>
  \<^verbatim>\<open>MyExec\<close> of \<^verbatim>\<open>test_override_requests\<close> (test_override_config_params.py, lines
  66-79): each handler writes its own name into the text of every document.
\<close>

definition set_text :: "string \<Rightarrow> handler" where
  "set_text t ds ps = map (\<lambda>d. d\<lparr>doc_text := t\<rparr>) ds"

definition MyExec :: executor where
  "MyExec =
     [\<lparr>method_name = ''foo'', declared = Default, body = set_text ''foo''\<rparr>,
      \<lparr>method_name = ''bar'', declared = Undecorated, body = set_text ''bar''\<rparr>,
      \<lparr>method_name = ''foobar'', declared = On [''/1'', ''/2''], body = set_text ''foobar''\<rparr>]"




text \<open>
  Modelled from the spec: \<^verbatim>\<open>Flow\<close> is not among the sources. Spec, 2: a client's
  request goes from the Gateway to the Head of a pod and on to a worker.
  \<^verbatim>\<open>Flow(port=exposed_port).add(uses=MyExec, uses_requests={...})\<close>
  (test_override_config_params.py, lines 82-114) is a gateway in front of one pod with one
  worker, which runs the executor with the given overrides.
\<close>

definition flow_add :: "executor \<Rightarrow> (string \<times> string) list \<Rightarrow> gateway" where
  "flow_add ex overrides =
     single_pod_gateway
       (create_head [[\<lparr>worker_name = ''executor0'', uses = ex, uses_requests = overrides\<rparr>]]
          PollingANY None None)"

text \<open>A numbering of \<^verbatim>\<open>complete_graph_dict\<close> that grows along every edge.\<close>

definition complete_graph_rank :: "string \<Rightarrow> nat" where
  "complete_graph_rank p =
     (case map_of [(''start-gateway'', 0), (''pod0'', 1), (''pod4'', 1), (''pod6'', 1),
                   (''pod1'', 2), (''pod2'', 2), (''pod5'', 2), (''pod3'', 3),
                   (''merger'', 4), (''pod_last'', 5), (''end-gateway'', 6)] p of
        Some n \<Rightarrow> n
      | None \<Rightarrow> 0)"

text \<open>A request of the tests' client: one document, endpoint \<^verbatim>\<open>/\<close>.\<close>

definition first_request :: request where
  "first_request =
     \<lparr>request_id = 0, endpoint = ''/'',
      docs = [\<lparr>doc_id = 0, doc_text = ''client0-Request'', tags = []\<rparr>],
      parameters = [], routes = []\<rparr>"

text \<open>
  The Head of \<^verbatim>\<open>test_runtimes_with_executor\<close> (test_runtimes.py, lines 366-410): ten
  shards of one replica, polling \<^verbatim>\<open>ALL\<close>, a pre- and a post-processor, every worker
  running \<^verbatim>\<open>NameChangeExecutor\<close> under its own name; \<open>name i\<close> is the name of shard
  \<open>i\<close>, and \<open>ids i\<close>, \<open>b\<close> and \<open>a\<close> are the ids of the documents that shard \<open>i\<close>, the
  pre-processor and the post-processor append.
\<close>

definition with_executor_head :: "(nat \<Rightarrow> string) \<Rightarrow> (nat \<Rightarrow> nat) \<Rightarrow> nat \<Rightarrow> nat \<Rightarrow> head" where
  "with_executor_head name ids b a =
     create_head
       (map (\<lambda>i. [create_worker_runtime (name i) (NameChangeExecutor (name i) (ids i))]) [0..<10])
       PollingALL
       (Some (create_worker_runtime ''pod0/uses_before'' (NameChangeExecutor ''pod0/uses_before'' b)))
       (Some (create_worker_runtime ''pod0/uses_after'' (NameChangeExecutor ''pod0/uses_after'' a)))"

text \<open>
  \<^verbatim>\<open>DynamicPollingExecutor\<close> (test_deployments.py, lines 411-428): three handlers, bound
  to \<^verbatim>\<open>/any\<close>, \<^verbatim>\<open>/all\<close> and \<^verbatim>\<open>/no_polling\<close>, each appending a document with
  the text \<^verbatim>\<open>added\<close>; \<open>new_id\<close> is the id the new document is given.
\<close>

definition DynamicPollingExecutor :: "nat \<Rightarrow> executor" where
  "DynamicPollingExecutor new_id =
     [\<lparr>method_name = ''any'', declared = On [''/any''],
       body = (\<lambda>ds _. ds @ [\<lparr>doc_id = new_id, doc_text = ''added'', tags = []\<rparr>])\<rparr>,
      \<lparr>method_name = ''all'', declared = On [''/all''],
       body = (\<lambda>ds _. ds @ [\<lparr>doc_id = new_id, doc_text = ''added'', tags = []\<rparr>])\<rparr>,
      \<lparr>method_name = ''no_polling'', declared = On [''/no_polling''],
       body = (\<lambda>ds _. ds @ [\<lparr>doc_id = new_id, doc_text = ''added'', tags = []\<rparr>])\<rparr>]"

text \<open>
  The Head of \<^verbatim>\<open>test_dynamic_polling_with_config\<close> (test_deployments.py, lines
  431-447): two shards of one replica running \<^verbatim>\<open>DynamicPollingExecutor\<close>, with the
  polling map \<^verbatim>\<open>{'/any': ANY, '/all': ALL, '*': polling}\<close>; \<open>ids i\<close> is the id of the
  document that shard \<open>i\<close> appends.
\<close>

definition dynamic_polling_head :: "(nat \<Rightarrow> nat) \<Rightarrow> polling \<Rightarrow> head" where
  "dynamic_polling_head ids p =
     (create_head (map (\<lambda>i. [create_worker_runtime ''pod'' (DynamicPollingExecutor (ids i))]) [0..<2])
        PollingANY None None)
       \<lparr>polling_by_endpoint := [(''/any'', PollingANY), (''/all'', PollingALL), (''*'', p)]\<rparr>"

text \<open>
  \<^verbatim>\<open>_create_test_data_message(endpoint)\<close> (test_deployments.py, lines 559-562): a
  request with the one document \<^verbatim>\<open>Document(text='client')\<close>, of id \<open>c\<close>.
\<close>

definition create_test_data_message :: "nat \<Rightarrow> string \<Rightarrow> request" where
  "create_test_data_message c ep =
     \<lparr>request_id = 0, endpoint = ep,
      docs = [\<lparr>doc_id = c, doc_text = ''client'', tags = []\<rparr>], parameters = [], routes = []\<rparr>"

section \<open>Properties of the request iterator\<close>

subsection \<open>The back-pressure loop\<close>

lemma wait_post_step:
  assumes "p \<le> count (c k)" and "wait_post c p (Suc k) m"
  shows "wait_post c p k m"
proof -
  from assms(2) have r: "Suc k \<le> m" "count (c m) < p"
    "\<forall>j. Suc k \<le> j \<and> j < m \<longrightarrow> p \<le> count (c j)"
    by (auto simp: wait_post_def)
  have "p \<le> count (c j)" if "k \<le> j" "j < m" for j
    using that assms(1) r(3) by (cases "j = k") auto
  with r show ?thesis by (auto simp: wait_post_def)
qed

text \<open>Whenever the loop is left, it is left at the first evaluation that finds the counter low.\<close>

lemma anext_wait_sound:
  assumes "anext_wait c p k = Some m"
  shows "wait_post c p k m"
proof (rule anext_wait.raw_induct[where P = wait_post, OF _ assms])
  fix w :: "counter_history \<Rightarrow> int \<Rightarrow> nat \<Rightarrow> nat option" and c p k m
  assume ih: "\<And>c p k m. w c p k = Some m \<Longrightarrow> wait_post c p k m"
  assume body: "(if p \<le> count (c k) then w c p (Suc k) else Some k) = Some m"
  show "wait_post c p k m"
  proof (cases "p \<le> count (c k)")
    case True
    with body have "w c p (Suc k) = Some m" by simp
    from wait_post_step[OF True ih[OF this]] show ?thesis .
  next
    case False
    with body show ?thesis by (auto simp: wait_post_def)
  qed
qed

text \<open>The loop is left as soon as the counter is low at some later evaluation.\<close>

lemma anext_wait_complete:
  "count (c (k + j)) < p \<Longrightarrow> \<exists>m. anext_wait c p k = Some m"
proof (induction j arbitrary: k)
  case 0
  then show ?case by (simp add: anext_wait.simps)
next
  case (Suc j)
  show ?case
  proof (cases "p \<le> count (c k)")
    case True
    from Suc.prems have "count (c (Suc k + j)) < p" by simp
    from Suc.IH[OF this] obtain m where "anext_wait c p (Suc k) = Some m" by blast
    with True show ?thesis by (subst anext_wait.simps) simp
  next
    case False
    then show ?thesis by (subst anext_wait.simps) simp
  qed
qed

text \<open>A counter that stays at or above the prefetch value keeps the loop spinning.\<close>

lemma anext_wait_diverges:
  "(\<forall>j. k \<le> j \<longrightarrow> p \<le> count (c j)) \<Longrightarrow> anext_wait c p k = None"
proof (rule ccontr)
  assume all: "\<forall>j. k \<le> j \<longrightarrow> p \<le> count (c j)" and "anext_wait c p k \<noteq> None"
  then obtain m where "anext_wait c p k = Some m" by auto
  from anext_wait_sound[OF this] all show False by (force simp: wait_post_def)
qed

lemma anext_gate:
  assumes "0 < prefetch self" and "request_counter self = Some c"
    and "anext self = Some (k, r, self')"
  shows "count (c k) < prefetch self \<and> (\<forall>j<k. prefetch self \<le> count (c j)) \<and>
         (r, self') = anext_pull self"
proof -
  from assms have w: "anext_wait c (prefetch self) 0 = Some k"
    and pull: "(r, self') = anext_pull self"
    by (auto simp: anext_def split: option.splits)
  from anext_wait_sound[OF w] pull show ?thesis by (auto simp: wait_post_def)
qed

lemma anext_blocked:
  assumes "0 < prefetch self" and "request_counter self = Some c"
    and "\<forall>j. prefetch self \<le> count (c j)"
  shows "anext self = None"
proof -
  have "anext_wait c (prefetch self) 0 = None"
    using assms(3) by (intro anext_wait_diverges) simp
  with assms(1,2) show ?thesis by (simp add: anext_def)
qed

text \<open>
  When back-pressure is off, or the counter is found low at some evaluation \<open>j\<close>, the call
  gets to the pull, on the object as it was at the call.
\<close>

lemma anext_gate_passes:
  assumes "prefetch self \<le> 0 \<or> (request_counter self = Some c \<and> count (c j) < prefetch self)"
  shows "\<exists>k. anext self = Some (k, anext_pull self)"
proof (cases "prefetch self \<le> 0")
  case True
  then show ?thesis by (simp add: anext_def)
next
  case False
  with assms have c: "request_counter self = Some c" and lt: "count (c (0 + j)) < prefetch self"
    by auto
  from anext_wait_complete[of c 0 j "prefetch self", OF lt]
  obtain m where "anext_wait c (prefetch self) 0 = Some m" ..
  with False c show ?thesis by (simp add: anext_def)
qed

subsection \<open>Claims about the request iterator\<close>

text \<open>
  Claim C1. For every prefetch value \<open>P > 0\<close> and every request counter: when
  \<^verbatim>\<open>__anext__\<close> gets to pull from the wrapped iterator, after \<open>k\<close> sleeps, the counter
  is below \<open>P\<close> at that evaluation and was at or above \<open>P\<close> at every earlier one, the
  pull is made on the untouched object, and the request handed over is at most the
  \<open>P\<close>-th in flight; and while the counter stays at or above \<open>P\<close> the call produces
  nothing at all.
\<close>

theorem anext_respects_prefetch:
  "0 < P \<Longrightarrow>
     (prefetch self = P \<and> request_counter self = Some c \<and> anext self = Some (k, r, self') \<longrightarrow>
        count (c k) < P \<and> count (c k) + 1 \<le> P \<and> (\<forall>j<k. P \<le> count (c j)) \<and>
        (r, self') = anext_pull self) \<and>
     (prefetch selfb = P \<and> request_counter selfb = Some cb \<and> (\<forall>j. P \<le> count (cb j)) \<longrightarrow>
        anext selfb = None)"
  using anext_gate[of self c k r self'] anext_blocked[of selfb cb]
  by auto

theorem anext_respects_prefetch_witness:
  "(0::int) < 2 \<and>
   anext \<lparr>iterator = \<lparr>is_Iterator = True, is_AsyncIterator = False, pending = [Req (7::nat)]\<rparr>,
          request_counter = Some (\<lambda>k. \<lparr>count = 3 - int k\<rparr>), prefetch = 2\<rparr>
     = Some (2, Inr (Req 7),
          \<lparr>iterator = \<lparr>is_Iterator = True, is_AsyncIterator = False, pending = []\<rparr>,
           request_counter = Some (\<lambda>k. \<lparr>count = 3 - int k\<rparr>), prefetch = 2\<rparr>) \<and>
   count ((\<lambda>k. \<lparr>count = 3 - int k\<rparr>) 2) < 2 \<and>
   2 \<le> count ((\<lambda>k. \<lparr>count = 3 - int k\<rparr>) 0) \<and>
   2 \<le> count ((\<lambda>k. \<lparr>count = 3 - int k\<rparr>) 1) \<and>
   anext \<lparr>iterator = \<lparr>is_Iterator = True, is_AsyncIterator = False, pending = [Req (7::nat)]\<rparr>,
          request_counter = Some (\<lambda>k. \<lparr>count = 5\<rparr>), prefetch = 2\<rparr> = None"
proof -
  let ?it = "\<lparr>is_Iterator = True, is_AsyncIterator = False, pending = [Req (7::nat)]\<rparr>"
  let ?it' = "\<lparr>is_Iterator = True, is_AsyncIterator = False, pending = ([] :: nat pyval list)\<rparr>"
  let ?c = "\<lambda>k. \<lparr>count = 3 - int k\<rparr>"
  let ?self = "\<lparr>iterator = ?it, request_counter = Some ?c, prefetch = 2\<rparr>"
  let ?self' = "\<lparr>iterator = ?it', request_counter = Some ?c, prefetch = 2\<rparr>"
  let ?cb = "\<lambda>k::nat. \<lparr>count = 5\<rparr>"
  let ?selfb = "\<lparr>iterator = ?it, request_counter = Some ?cb, prefetch = 2\<rparr>"
  have "anext_wait ?c 2 0 = Some (Suc (Suc 0))"
    by (simp add: anext_wait.simps)
  then have run: "anext ?self = Some (2, Inr (Req 7), ?self')"
    by (simp add: anext_def anext_pull_def iterator_next_def next_sync_def numeral_2_eq_2)
  from anext_respects_prefetch[of 2 ?self ?c 2 "Inr (Req 7)" ?self' ?selfb ?cb] run
  show ?thesis by simp
qed

text \<open>
  Claim C2. With \<^verbatim>\<open>prefetch = 0\<close>, \<^verbatim>\<open>__anext__\<close> never waits on the request counter:
  whatever counter \<open>rc\<close> the iterator was given (none, or one with any history of
  counts), the call goes to the pull after zero sleeps, and when the wrapped iterator has a
  next request it returns that request and advances the iterator by that one element.
\<close>

theorem anext_prefetch_zero:
  assumes "prefetch self = 0"
  shows "anext (self\<lparr>request_counter := rc\<rparr>) =
           Some (0, anext_pull (self\<lparr>request_counter := rc\<rparr>)) \<and>
         ((is_Iterator (iterator self) \<or> is_AsyncIterator (iterator self)) \<and>
          pending (iterator self) = Req x # rest \<longrightarrow>
            anext (self\<lparr>request_counter := rc\<rparr>) =
              Some (0, Inr (Req x),
                self\<lparr>request_counter := rc, iterator := (iterator self)\<lparr>pending := rest\<rparr>\<rparr>))"
  using assms
  by (auto simp: anext_def anext_pull_def iterator_next_def next_sync_def next_async_def)

theorem anext_prefetch_zero_witness:
  "prefetch \<lparr>iterator = \<lparr>is_Iterator = True, is_AsyncIterator = False,
                          pending = [Req (1::nat), Req 2]\<rparr>,
             request_counter = None, prefetch = 0\<rparr> = 0 \<and>
   anext \<lparr>iterator = \<lparr>is_Iterator = True, is_AsyncIterator = False,
                       pending = [Req (1::nat), Req 2]\<rparr>,
          request_counter = Some (\<lambda>k. \<lparr>count = 1000\<rparr>), prefetch = 0\<rparr> =
     Some (0, Inr (Req 1),
       \<lparr>iterator = \<lparr>is_Iterator = True, is_AsyncIterator = False, pending = [Req 2]\<rparr>,
        request_counter = Some (\<lambda>k. \<lparr>count = 1000\<rparr>), prefetch = 0\<rparr>)"
  using anext_prefetch_zero[where
      self = "\<lparr>iterator = \<lparr>is_Iterator = True, is_AsyncIterator = False,
                           pending = [Req (1::nat), Req 2]\<rparr>,
               request_counter = None, prefetch = 0\<rparr>"
      and rc = "Some (\<lambda>k. \<lparr>count = 1000\<rparr>)" and x = 1 and rest = "[Req 2]",
      THEN conjunct2]
  by simp

text \<open>
  Claim C3. For every synchronous iterator wrapped by the request iterator: when the wrapped
  iterator is exhausted, so that its \<^verbatim>\<open>__next__\<close> raises \<^verbatim>\<open>StopIteration\<close>, the call
  of \<^verbatim>\<open>__anext__\<close> that pulls from it (back-pressure being off, or the counter being found
  below the prefetch value at some evaluation) ends by raising \<^verbatim>\<open>StopAsyncIteration\<close>:
  it neither returns a value nor lets \<^verbatim>\<open>StopIteration\<close> through.
\<close>

theorem anext_end_of_stream:
  assumes "is_Iterator (iterator self)" and "pending (iterator self) = []"
    and "prefetch self \<le> 0 \<or> (request_counter self = Some c \<and> count (c j) < prefetch self)"
  shows "\<exists>k. anext self = Some (k, Inl StopAsyncIteration, self)"
proof -
  from assms(1,2) have "anext_pull self = (Inl StopAsyncIteration, self)"
    by (simp add: anext_pull_def iterator_next_def next_sync_def)
  with anext_gate_passes[OF assms(3)] show ?thesis by simp
qed

theorem anext_end_of_stream_witness:
  "count ((\<lambda>k. \<lparr>count = 3 - int k\<rparr>) 1) < 3 \<and>
   (\<exists>k. anext \<lparr>iterator = \<lparr>is_Iterator = True, is_AsyncIterator = False,
                             pending = ([] :: nat pyval list)\<rparr>,
                request_counter = Some (\<lambda>k. \<lparr>count = 3 - int k\<rparr>), prefetch = 3\<rparr> =
     Some (k, Inl StopAsyncIteration,
       \<lparr>iterator = \<lparr>is_Iterator = True, is_AsyncIterator = False, pending = []\<rparr>,
        request_counter = Some (\<lambda>k. \<lparr>count = 3 - int k\<rparr>), prefetch = 3\<rparr>))"
  using anext_end_of_stream[of
      "\<lparr>iterator = \<lparr>is_Iterator = True, is_AsyncIterator = False,
                    pending = ([] :: nat pyval list)\<rparr>,
        request_counter = Some (\<lambda>k. \<lparr>count = 3 - int k\<rparr>), prefetch = 3\<rparr>"
      "\<lambda>k. \<lparr>count = 3 - int k\<rparr>" 1]
  by simp

text \<open>
  Claim C9. For every synchronous iterator wrapped by the request iterator: if the wrapped
  iterator yields the value \<^verbatim>\<open>None\<close> as a regular element, the call of \<^verbatim>\<open>__anext__\<close>
  that pulls it raises \<^verbatim>\<open>StopAsyncIteration\<close>, exactly as at the end of the stream,
  although the wrapped iterator still holds the elements \<open>rest\<close>.
\<close>

theorem anext_yielded_None:
  assumes "is_Iterator (iterator self)" and "pending (iterator self) = PyNone # rest"
    and "prefetch self \<le> 0 \<or> (request_counter self = Some c \<and> count (c j) < prefetch self)"
  shows "\<exists>k. anext self =
           Some (k, Inl StopAsyncIteration, self\<lparr>iterator := (iterator self)\<lparr>pending := rest\<rparr>\<rparr>)"
proof -
  from assms(1,2) have "anext_pull self =
      (Inl StopAsyncIteration, self\<lparr>iterator := (iterator self)\<lparr>pending := rest\<rparr>\<rparr>)"
    by (simp add: anext_pull_def iterator_next_def next_sync_def)
  with anext_gate_passes[OF assms(3)] show ?thesis by simp
qed

theorem anext_yielded_None_witness:
  "\<exists>k. anext \<lparr>iterator = \<lparr>is_Iterator = True, is_AsyncIterator = False,
                           pending = [PyNone, Req (5::nat)]\<rparr>,
              request_counter = None, prefetch = 0\<rparr> =
     Some (k, Inl StopAsyncIteration,
       \<lparr>iterator = \<lparr>is_Iterator = True, is_AsyncIterator = False, pending = [Req 5]\<rparr>,
        request_counter = None, prefetch = 0\<rparr>)"
  using anext_yielded_None[of
      "\<lparr>iterator = \<lparr>is_Iterator = True, is_AsyncIterator = False,
                    pending = [PyNone, Req (5::nat)]\<rparr>,
        request_counter = None, prefetch = 0\<rparr>" "[Req 5]"]
  by simp

text \<open>
  Claim C10. If the wrapped object is neither an \<^verbatim>\<open>Iterator\<close> nor an
  \<^verbatim>\<open>AsyncIterator\<close>, the call of \<^verbatim>\<open>__anext__\<close> that gets past the back-pressure loop
  reaches \<^verbatim>\<open>return request\<close> with \<^verbatim>\<open>request\<close> never assigned and fails with an error
  instead of returning a request; the wrapped object is left untouched.
\<close>

theorem anext_unsupported_object:
  assumes "\<not> is_Iterator (iterator self)" and "\<not> is_AsyncIterator (iterator self)"
    and "prefetch self \<le> 0 \<or> (request_counter self = Some c \<and> count (c j) < prefetch self)"
  shows "\<exists>k. anext self = Some (k, Inl UnboundLocalError, self)"
proof -
  from assms(1,2) have "anext_pull self = (Inl UnboundLocalError, self)"
    by (simp add: anext_pull_def)
  with anext_gate_passes[OF assms(3)] show ?thesis by simp
qed

theorem anext_unsupported_object_witness:
  "\<exists>k. anext \<lparr>iterator = \<lparr>is_Iterator = False, is_AsyncIterator = False,
                           pending = [Req (5::nat)]\<rparr>,
              request_counter = None, prefetch = 0\<rparr> =
     Some (k, Inl UnboundLocalError,
       \<lparr>iterator = \<lparr>is_Iterator = False, is_AsyncIterator = False, pending = [Req 5]\<rparr>,
        request_counter = None, prefetch = 0\<rparr>)"
  using anext_unsupported_object[of
      "\<lparr>iterator = \<lparr>is_Iterator = False, is_AsyncIterator = False,
                    pending = [Req (5::nat)]\<rparr>,
        request_counter = None, prefetch = 0\<rparr>"]
  by simp

subsection \<open>The in-flight bound of the consumer\<close>

text \<open>
  In the Gateway's loop, which counts each request the iterator hands over and discounts
  each completion, the number of requests in flight never exceeds a positive prefetch
  value: the bound of Claim C1 at every hand-over is all the loop needs.
\<close>

lemma gateway_step_bound:
  assumes "0 < P" and "gateway_step P s s'" and "in_flight s \<le> P"
  shows "in_flight s' \<le> P"
  using assms(2)
proof cases
  case completes
  with assms(3) show ?thesis by simp
next
  case (admits c k v self')
  from anext_gate[of "\<lparr>iterator = client s, request_counter = Some c, prefetch = P\<rparr>"
      c k "Inr v" self'] admits(2) assms(1)
  have "count (c k) < P" by simp
  with admits(1) show ?thesis by simp
next
  case (ends c k e self')
  from anext_gate[of "\<lparr>iterator = client s, request_counter = Some c, prefetch = P\<rparr>"
      c k "Inl e" self'] ends(2) assms(1)
  have "count (c k) < P" by simp
  with ends(1) show ?thesis by simp
qed

lemma gateway_run_bound:
  assumes "0 < P" and "(gateway_step P)\<^sup>*\<^sup>* s0 s" and "in_flight s0 \<le> P"
  shows "in_flight s \<le> P"
  using assms(2)
proof (induction rule: rtranclp_induct)
  case base
  show ?case by (rule assms(3))
next
  case (step y z)
  from gateway_step_bound[OF assms(1) step(2) step(3)] show ?case .
qed

section \<open>Properties of the data plane\<close>

subsection \<open>A gateway in front of one pod\<close>

lemma single_pod_names: "pod_names single_pod_graph = [''pod0'']"
  by (simp add: pod_names_def single_pod_graph_def is_gateway_def)

lemma single_pod_predecessors: "predecessors single_pod_graph ''pod0'' = [''start-gateway'']"
  by (simp add: predecessors_def single_pod_graph_def successors_def)

lemma single_pod_successors: "successors single_pod_graph ''pod0'' = [''end-gateway'']"
  by (simp add: single_pod_graph_def successors_def)

lemma single_pod_end_predecessors:
  "predecessors single_pod_graph ''end-gateway'' = [''pod0'']"
  by (simp add: predecessors_def single_pod_graph_def successors_def)

lemma handle_single_pod:
  "handle_request (single_pod_gateway h) req =
     ([fst (head_process h req)], single_pod_gateway (snd (head_process h req)))"
proof -
  let ?st = "\<lparr>responded = [], heads = [(''pod0'', h)]\<rparr>"
  let ?st' = "\<lparr>responded = [(''pod0'', fst (head_process h req))],
               heads = [(''pod0'', snd (head_process h req))]\<rparr>"
  have first: "find (ready single_pod_graph ?st) (pod_names single_pod_graph) = Some ''pod0''"
    by (simp add: single_pod_names ready_def single_pod_predecessors)
  have run: "run_pod single_pod_graph req ?st ''pod0'' = ?st'"
    by (simp add: run_pod_def inputs_of_def fan_in_def single_pod_predecessors
        split: prod.splits)
  have last: "find (ready single_pod_graph ?st') (pod_names single_pod_graph) = None"
    by (simp add: single_pod_names ready_def)
  have t: "traverse single_pod_graph req ?st = ?st'"
    by (subst traverse.simps, simp only: first option.case run)
       (subst traverse.simps, simp only: last option.case)
  have "inputs_of single_pod_graph req ?st' ''end-gateway'' = [fst (head_process h req)]"
    by (simp add: inputs_of_def single_pod_end_predecessors)
  with t show ?thesis
    by (simp add: handle_request_def single_pod_gateway_def fan_in_def)
qed

text \<open>One shard with one replica: the Head hands the request to its worker, and its counters stay.\<close>

lemma head_single_worker:
  "head_process (create_head [[w]] PollingANY None None) req =
     (process w req, create_head [[w]] PollingANY None None)"
  by (simp add: head_process_def create_head_def resolve_polling_def dispatch_any_def
      send_to_shard_def Let_def)

lemma handle_single_worker:
  "handle_request (single_pod_gateway (create_head [[w]] PollingANY None None)) req =
     ([process w req], single_pod_gateway (create_head [[w]] PollingANY None None))"
  by (simp add: handle_single_pod head_single_worker)

lemma stream_single_worker:
  "stream (single_pod_gateway (create_head [[w]] PollingANY None None)) reqs =
     (map (process w) reqs, single_pod_gateway (create_head [[w]] PollingANY None None))"
  by (induction reqs) (simp_all add: handle_single_worker)

lemma process_BaseExecutor: "process (create_worker_runtime name BaseExecutor) = (\<lambda>req. req)"
  by (rule ext)
     (simp add: process_def create_worker_runtime_def BaseExecutor_def resolve_def
      endpoint_table_def declared_bindings_def)

lemma docs_post: "map docs (post on inputs) = map (\<lambda>d. [d]) inputs"
proof -
  have "map docs (post on inputs) = map ((\<lambda>d. [d]) \<circ> snd) (enumerate 0 inputs)"
    by (simp add: post_def case_prod_unfold)
  also have "\<dots> = map (\<lambda>d. [d]) (map snd (enumerate 0 inputs))"
    by (simp only: map_map)
  also have "\<dots> = map (\<lambda>d. [d]) inputs"
    by (simp only: map_snd_enumerate)
  finally show ?thesis .
qed

text \<open>
  Claim C4. For the linear topology \<^verbatim>\<open>{start-gateway: [pod0], pod0: [end-gateway]}\<close> with
  one worker replica running the identity executor, the client stream of the tests, 20
  requests each carrying one document with the text \<^verbatim>\<open>client0-Request\<close>, yields exactly
  20 responses, each containing exactly one document, whose text is unchanged.
\<close>

theorem trivial_topology_20_requests:
  "length (post ''/'' (async_inputs ids)) = 20 \<and>
   map docs (post ''/'' (async_inputs ids)) =
     map (\<lambda>i. [\<lparr>doc_id = ids i, doc_text = ''client0-Request'', tags = []\<rparr>]) [0..<20] \<and>
   length (fst (stream trivial_topology (post ''/'' (async_inputs ids)))) = 20 \<and>
   map docs (fst (stream trivial_topology (post ''/'' (async_inputs ids)))) =
     map (\<lambda>i. [\<lparr>doc_id = ids i, doc_text = ''client0-Request'', tags = []\<rparr>]) [0..<20] \<and>
   map (map doc_text \<circ> docs) (fst (stream trivial_topology (post ''/'' (async_inputs ids)))) =
     replicate 20 [''client0-Request'']"
proof -
  have s: "fst (stream trivial_topology (post ''/'' (async_inputs ids))) =
      post ''/'' (async_inputs ids)"
    by (simp add: trivial_topology_def stream_single_worker process_BaseExecutor)
  have d: "map docs (post ''/'' (async_inputs ids)) =
      map (\<lambda>i. [\<lparr>doc_id = ids i, doc_text = ''client0-Request'', tags = []\<rparr>]) [0..<20]"
    by (simp add: docs_post async_inputs_def)
  have l: "length (post ''/'' (async_inputs ids)) = 20"
    by (simp add: post_def async_inputs_def)
  have "map (map doc_text \<circ> docs) (post ''/'' (async_inputs ids)) =
      map (map doc_text) (map docs (post ''/'' (async_inputs ids)))"
    by simp
  also have "\<dots> = map (\<lambda>i. [''client0-Request'']) [0..<20]"
    by (simp only: d) (simp add: comp_def)
  also have "\<dots> = replicate 20 [''client0-Request'']"
    by (simp add: map_replicate_const)
  finally have t: "map (map doc_text \<circ> docs) (post ''/'' (async_inputs ids)) =
      replicate 20 [''client0-Request'']" .
  from s d l t show ?thesis by simp
qed

subsection \<open>Endpoint bindings\<close>

lemma MyExec_table:
  "endpoint_table MyExec overrides =
     map_of [(''/default'', ''foo''), (''/1'', ''foobar''), (''/2'', ''foobar'')] ++ map_of overrides"
  by (simp add: endpoint_table_def declared_bindings_def MyExec_def)

lemma MyExec_methods:
  "find_method MyExec ''foo'' = Some \<lparr>method_name = ''foo'', declared = Default, body = set_text ''foo''\<rparr>"
  "find_method MyExec ''bar'' = Some \<lparr>method_name = ''bar'', declared = Undecorated, body = set_text ''bar''\<rparr>"
  "find_method MyExec ''foobar'' =
     Some \<lparr>method_name = ''foobar'', declared = On [''/1'', ''/2''], body = set_text ''foobar''\<rparr>"
  by (simp_all add: find_method_def MyExec_def)

lemma overrides_win:
  "map_of overrides ep = Some n \<Longrightarrow> endpoint_table ex overrides ep = Some n"
  by (simp add: endpoint_table_def map_add_def)

lemma declarations_stay:
  "map_of overrides ep = None \<Longrightarrow>
     endpoint_table ex overrides ep = map_of (declared_bindings ex) ep"
  by (simp add: endpoint_table_def map_add_def)

lemma flow_add_handle:
  "fst (handle_request (flow_add ex overrides) req) =
     [process \<lparr>worker_name = ''executor0'', uses = ex, uses_requests = overrides\<rparr> req]"
  by (simp add: flow_add_def handle_single_worker)

text \<open>
  Claim C5. For the executor with the default handler \<^verbatim>\<open>foo\<close>, the undecorated method
  \<^verbatim>\<open>bar\<close> and the handler \<^verbatim>\<open>foobar\<close> bound to \<^verbatim>\<open>/1\<close> and \<^verbatim>\<open>/2\<close>, launched with
  \<^verbatim>\<open>uses_requests={'/index': 'bar'}\<close>: a request to \<^verbatim>\<open>/index\<close> is served by
  \<^verbatim>\<open>bar\<close>, a request to \<^verbatim>\<open>/1\<close> by \<^verbatim>\<open>foobar\<close>, and a request to any endpoint with
  no explicit binding by the default handler \<^verbatim>\<open>foo\<close>, which also serves
  \<^verbatim>\<open>/index\<close> when nothing is overridden; and for every executor and every list of
  overrides, an endpoint that the launch arguments bind is bound as they say, whatever the
  decorators declare.
\<close>

theorem override_requests:
  "map docs (fst (handle_request (flow_add MyExec [(''/index'', ''bar'')])
                    (req\<lparr>endpoint := ''/index''\<rparr>)))
     = [map (\<lambda>d. d\<lparr>doc_text := ''bar''\<rparr>) (docs req)] \<and>
   map docs (fst (handle_request (flow_add MyExec [(''/index'', ''bar'')])
                    (req\<lparr>endpoint := ''/1''\<rparr>)))
     = [map (\<lambda>d. d\<lparr>doc_text := ''foobar''\<rparr>) (docs req)] \<and>
   (ep \<notin> {''/index'', ''/1'', ''/2''} \<longrightarrow>
      map docs (fst (handle_request (flow_add MyExec [(''/index'', ''bar'')])
                       (req\<lparr>endpoint := ep\<rparr>)))
        = [map (\<lambda>d. d\<lparr>doc_text := ''foo''\<rparr>) (docs req)]) \<and>
   map docs (fst (handle_request (flow_add MyExec []) (req\<lparr>endpoint := ''/index''\<rparr>)))
     = [map (\<lambda>d. d\<lparr>doc_text := ''foo''\<rparr>) (docs req)] \<and>
   (map_of overrides e = Some n \<longrightarrow> endpoint_table ex overrides e = Some n)"
proof -
  have index: "map docs (fst (handle_request (flow_add MyExec [(''/index'', ''bar'')])
                    (req\<lparr>endpoint := ''/index''\<rparr>)))
     = [map (\<lambda>d. d\<lparr>doc_text := ''bar''\<rparr>) (docs req)]"
    by (simp add: flow_add_handle process_def resolve_def MyExec_table MyExec_methods set_text_def)
  have one: "map docs (fst (handle_request (flow_add MyExec [(''/index'', ''bar'')])
                    (req\<lparr>endpoint := ''/1''\<rparr>)))
     = [map (\<lambda>d. d\<lparr>doc_text := ''foobar''\<rparr>) (docs req)]"
    by (simp add: flow_add_handle process_def resolve_def MyExec_table MyExec_methods set_text_def)
  have other: "map docs (fst (handle_request (flow_add MyExec [(''/index'', ''bar'')])
                       (req\<lparr>endpoint := ep\<rparr>)))
        = [map (\<lambda>d. d\<lparr>doc_text := ''foo''\<rparr>) (docs req)]"
    if "ep \<notin> {''/index'', ''/1'', ''/2''}"
    using that
    by (simp add: flow_add_handle process_def resolve_def MyExec_table MyExec_methods set_text_def)
  have original: "map docs (fst (handle_request (flow_add MyExec []) (req\<lparr>endpoint := ''/index''\<rparr>)))
     = [map (\<lambda>d. d\<lparr>doc_text := ''foo''\<rparr>) (docs req)]"
    by (simp add: flow_add_handle process_def resolve_def MyExec_table MyExec_methods set_text_def)
  from index one other original overrides_win[of overrides e n ex] show ?thesis by blast
qed

theorem override_requests_witness:
  "''/default-unknown'' \<notin> {''/index'', ''/1'', ''/2''} \<and>
   map docs (fst (handle_request (flow_add MyExec [(''/index'', ''bar'')])
       \<lparr>request_id = 0, endpoint = ''/default-unknown'',
        docs = [\<lparr>doc_id = 0, doc_text = [], tags = []\<rparr>], parameters = [], routes = []\<rparr>))
     = [[\<lparr>doc_id = 0, doc_text = ''foo'', tags = []\<rparr>]] \<and>
   map docs (fst (handle_request (flow_add MyExec [(''/index'', ''bar'')])
       \<lparr>request_id = 0, endpoint = ''/index'',
        docs = [\<lparr>doc_id = 0, doc_text = [], tags = []\<rparr>], parameters = [], routes = []\<rparr>))
     = [[\<lparr>doc_id = 0, doc_text = ''bar'', tags = []\<rparr>]] \<and>
   map_of [(''/index'', ''bar'')] ''/index'' = Some ''bar'' \<and>
   endpoint_table MyExec [(''/index'', ''bar'')] ''/index'' = Some ''bar''"
  using override_requests[of
      "\<lparr>request_id = 0, endpoint = ''/'',
        docs = [\<lparr>doc_id = 0, doc_text = [], tags = []\<rparr>], parameters = [], routes = []\<rparr>"
      "''/default-unknown''" "[(''/index'', ''bar'')]" "''/index''" "''bar''" MyExec]
  by simp

subsection \<open>Shards and polling ALL\<close>

text \<open>
  Reduction by id, one document at a time: a document whose id is there is dropped, and
  documents of new and distinct ids are appended in their order.
\<close>

lemma reduce_skip:
  "\<forall>d \<in> set xs. doc_id d \<in> set (map doc_id acc) \<Longrightarrow>
     fold (\<lambda>d acc. if doc_id d \<in> set (map doc_id acc) then acc else acc @ [d]) xs acc = acc"
  by (induction xs) simp_all

lemma reduce_add:
  "distinct (map doc_id xs) \<Longrightarrow> set (map doc_id xs) \<inter> set (map doc_id acc) = {} \<Longrightarrow>
     fold (\<lambda>d acc. if doc_id d \<in> set (map doc_id acc) then acc else acc @ [d]) xs acc = acc @ xs"
proof (induction xs arbitrary: acc)
  case Nil
  show ?case by simp
next
  case (Cons x xs)
  from Cons.prems have new: "doc_id x \<notin> set (map doc_id acc)" by auto
  from Cons.prems have "distinct (map doc_id xs)"
    and "set (map doc_id xs) \<inter> set (map doc_id (acc @ [x])) = {}" by auto
  from Cons.IH[OF this] new show ?case by simp
qed

text \<open>
  The responses of \<open>N\<close> shards that each append a document of their own to the documents
  \<open>ds\<close>: reduced, they are \<open>ds\<close> once and the appended documents in shard-index order.
\<close>

lemma reduce_docs_blocks:
  assumes "distinct (map doc_id ds @ map (doc_id \<circ> t) [0..<N])" and "0 < N"
  shows "reduce_docs (map (\<lambda>i. ds @ [t i]) [0..<N]) = ds @ map t [0..<N]"
  using assms
proof (induction N)
  case 0
  then show ?case by simp
next
  case (Suc N)
  let ?f = "\<lambda>d acc. if doc_id d \<in> set (map doc_id acc) then acc else acc @ [d]"
  from Suc.prems(1) have d: "distinct (map doc_id ds @ map (doc_id \<circ> t) [0..<N])"
    and fresh: "doc_id (t N) \<notin> set (map doc_id ds)" "doc_id (t N) \<notin> (doc_id \<circ> t) ` {0..<N}"
    by (auto simp: comp_def)
  show ?case
  proof (cases "N = 0")
    case True
    from Suc.prems(1) have "distinct (map doc_id (ds @ [t 0]))" by (simp add: True)
    from reduce_add[OF this, of "[]"] show ?thesis by (simp add: True reduce_docs_def)
  next
    case False
    with Suc.IH[OF d] have ih: "fold ?f (concat (map (\<lambda>i. ds @ [t i]) [0..<N])) [] = ds @ map t [0..<N]"
      by (simp add: reduce_docs_def)
    have skip: "fold ?f ds (ds @ map t [0..<N]) = ds @ map t [0..<N]"
      by (rule reduce_skip) simp
    from fresh have new: "doc_id (t N) \<notin> set (map doc_id (ds @ map t [0..<N]))"
      by (auto simp: comp_def image_Un image_image)
    have "reduce_docs (map (\<lambda>i. ds @ [t i]) [0..<Suc N]) =
        fold ?f (ds @ [t N]) (fold ?f (concat (map (\<lambda>i. ds @ [t i]) [0..<N])) [])"
      by (simp add: reduce_docs_def)
    also have "\<dots> = fold ?f [t N] (ds @ map t [0..<N])"
      by (simp only: ih fold_append comp_def skip)
    also have "\<dots> = ds @ map t [0..<Suc N]"
      using new by (simp add: image_Un image_image)
    finally show ?thesis .
  qed
qed

text \<open>
  A Head whose shards have one replica each sends every shard its request and keeps the
  responses in shard-index order, whatever its round-robin counters are.
\<close>

lemma send_to_shard_one_replica:
  assumes "connection_list h = map (\<lambda>i. [W i]) [0..<N]" and "i < N"
  shows "fst (send_to_shard h i req) = Some (process (W i) req)"
    and "connection_list (snd (send_to_shard h i req)) = connection_list h"
    and "uses_after (snd (send_to_shard h i req)) = uses_after h"
  using assms by (simp_all add: send_to_shard_def Let_def)

lemma send_to_shards_one_replica:
  assumes "connection_list h = map (\<lambda>i. [W i]) [0..<N]" and "set js \<subseteq> {0..<N}"
  shows "fst (send_to_shards h js req) = map (\<lambda>i. process (W i) req) js"
  using assms
proof (induction js arbitrary: h)
  case Nil
  show ?case by simp
next
  case (Cons j js)
  from Cons.prems have j: "j < N" and js: "set js \<subseteq> {0..<N}" by auto
  obtain r h' where s: "send_to_shard h j req = (r, h')" by (cases "send_to_shard h j req")
  from send_to_shard_one_replica(1,2)[OF Cons.prems(1) j, of req] s Cons.prems(1)
  have r: "r = Some (process (W j) req)" and h': "connection_list h' = map (\<lambda>i. [W i]) [0..<N]"
    by simp_all
  from Cons.IH[OF h' js] have "fst (send_to_shards h' js req) = map (\<lambda>i. process (W i) req) js" .
  with s r show ?case by (cases "send_to_shards h' js req") simp
qed

lemma dispatch_all_one_replica:
  assumes "connection_list h = map (\<lambda>i. [W i]) [0..<N]"
  shows "fst (dispatch_all h req) = combine h req (map (\<lambda>i. process (W i) req) [0..<N])"
proof -
  have "fst (send_to_shards h [0..<N] req) = map (\<lambda>i. process (W i) req) [0..<N]"
    by (rule send_to_shards_one_replica[OF assms]) simp
  then show ?thesis
    by (cases "send_to_shards h [0..<N] req") (simp add: dispatch_all_def assms)
qed

lemma dispatch_any_one_replica:
  assumes "connection_list h = map (\<lambda>i. [W i]) [0..<N]" and "0 < N"
  shows "fst (dispatch_any h req) = process (W (shard_counter h mod N)) req"
proof -
  let ?i = "shard_counter h mod N"
  let ?h1 = "h\<lparr>shard_counter := (shard_counter h + 1) mod N\<rparr>"
  have c: "connection_list ?h1 = map (\<lambda>i. [W i]) [0..<N]" using assms(1) by simp
  have i: "?i < N" using assms(2) by simp
  from send_to_shard_one_replica(1)[OF c i, of req]
  have "fst (send_to_shard ?h1 ?i req) = Some (process (W ?i) req)" .
  then show ?thesis
    using assms by (cases "send_to_shard ?h1 ?i req") (simp add: dispatch_any_def Let_def)
qed

text \<open>What the Head makes of two or more responses: it reduces them, or merges them for its reducer.\<close>

lemma combine_many:
  "2 \<le> length rs \<Longrightarrow>
     combine h req rs = (if uses_after h = None then reduce req rs else merge req rs)"
  by (cases rs; cases "tl rs") (auto simp: combine_def)







subsection \<open>The Head against the assertions of the tests\<close>

text \<open>
  \<^verbatim>\<open>test_runtimes_with_executor\<close> (test_runtimes.py, lines 442-452): with one input
  document, a pre-processor, ten shards under polling ALL and a post-processor, each
  appending a document of its own name, the response has \<^verbatim>\<open>(1 + 1 + 1) * 10 + 1\<close>
  documents: the ten shard responses, each with its copy of the input document and of the
  pre-processor's, and the post-processor's document.
\<close>

lemma process_NameChangeExecutor:
  "process (create_worker_runtime nm (NameChangeExecutor x i)) req =
     req\<lparr>docs := docs req @ [\<lparr>doc_id = i, doc_text = x, tags = []\<rparr>], routes := routes req @ [nm]\<rparr>"
  by (simp add: process_def create_worker_runtime_def NameChangeExecutor_def resolve_def
      endpoint_table_def declared_bindings_def find_method_def)

lemma with_executor_texts:
  "map doc_text (docs (fst (head_process (with_executor_head nm ids b a) req))) =
     concat (map (\<lambda>i. map doc_text (docs req) @ [''pod0/uses_before'', nm i]) [0..<10])
       @ [''pod0/uses_after'']"
proof -
  let ?h = "with_executor_head nm ids b a"
  let ?W = "\<lambda>i. create_worker_runtime (nm i) (NameChangeExecutor (nm i) (ids i))"
  let ?working = "process (create_worker_runtime ''pod0/uses_before''
      (NameChangeExecutor ''pod0/uses_before'' b)) req"
  let ?rs = "map (\<lambda>i. process (?W i) ?working) [0..<10]"
  have c: "connection_list ?h = map (\<lambda>i. [?W i]) [0..<10]"
    by (simp add: with_executor_head_def create_head_def)
  have u: "uses_after ?h =
      Some (create_worker_runtime ''pod0/uses_after'' (NameChangeExecutor ''pod0/uses_after'' a))"
    by (simp add: with_executor_head_def create_head_def)
  have "fst (head_process ?h req) =
      process (create_worker_runtime ''pod0/uses_after'' (NameChangeExecutor ''pod0/uses_after'' a))
        (fst (dispatch_all ?h ?working))"
    by (simp add: head_process_def with_executor_head_def create_head_def resolve_polling_def
        split: prod.splits)
  also have "fst (dispatch_all ?h ?working) = combine ?h ?working ?rs"
    by (rule dispatch_all_one_replica[OF c])
  also have "\<dots> = merge ?working ?rs"
    by (simp add: combine_many u)
  finally show ?thesis
    by (simp add: merge_def process_NameChangeExecutor comp_def map_concat)
qed

lemma test_runtimes_with_executor:
  "map (map doc_text \<circ> docs)
       (fst (handle_request (single_pod_gateway (with_executor_head nm ids b a)) first_request)) =
     [concat (map (\<lambda>i. [''client0-Request'', ''pod0/uses_before'', nm i]) [0..<10])
        @ [''pod0/uses_after'']]"
  and "map (length \<circ> docs)
       (fst (handle_request (single_pod_gateway (with_executor_head nm ids b a)) first_request)) =
     [(1 + 1 + 1) * 10 + 1]"
proof -
  show "map (map doc_text \<circ> docs)
       (fst (handle_request (single_pod_gateway (with_executor_head nm ids b a)) first_request)) =
     [concat (map (\<lambda>i. [''client0-Request'', ''pod0/uses_before'', nm i]) [0..<10])
        @ [''pod0/uses_after'']]"
    by (simp add: handle_single_pod with_executor_texts) (simp add: first_request_def)
  have "length (docs (fst (head_process (with_executor_head nm ids b a) first_request))) =
      length (map doc_text (docs (fst (head_process (with_executor_head nm ids b a) first_request))))"
    by simp
  also have "\<dots> = (1 + 1 + 1) * 10 + 1"
    by (simp only: with_executor_texts)
       (simp add: first_request_def length_concat comp_def sum_list_triv)
  finally show "map (length \<circ> docs)
       (fst (handle_request (single_pod_gateway (with_executor_head nm ids b a)) first_request)) =
     [(1 + 1 + 1) * 10 + 1]"
    by (simp add: handle_single_pod)
qed

text \<open>
  \<^verbatim>\<open>test_dynamic_polling_with_config\<close> (test_deployments.py, lines 448-476): behind two
  shards, a request to \<^verbatim>\<open>/all\<close> comes back with \<^verbatim>\<open>1 + 2\<close> documents and a request to
  \<^verbatim>\<open>/any\<close> with \<^verbatim>\<open>1 + 1\<close>; a request to \<^verbatim>\<open>/no_polling\<close> follows the wildcard.
\<close>

lemma process_DynamicPollingExecutor:
  assumes "ep \<in> {''/any'', ''/all'', ''/no_polling''}"
  shows "docs (process (create_worker_runtime nm (DynamicPollingExecutor x))
                 (create_test_data_message c ep)) =
     [\<lparr>doc_id = c, doc_text = ''client'', tags = []\<rparr>, \<lparr>doc_id = x, doc_text = ''added'', tags = []\<rparr>]"
  using assms
  by (auto simp: process_def create_worker_runtime_def DynamicPollingExecutor_def resolve_def
      endpoint_table_def declared_bindings_def find_method_def create_test_data_message_def)

lemma dynamic_polling_all:
  assumes "distinct [c, ids 0, ids 1]"
    and "resolve_polling (dynamic_polling_head ids p) ep = PollingALL"
    and "ep \<in> {''/any'', ''/all'', ''/no_polling''}"
  shows "length (docs (fst (head_process (dynamic_polling_head ids p)
                              (create_test_data_message c ep)))) = 1 + 2"
proof -
  let ?h = "dynamic_polling_head ids p"
  let ?req = "create_test_data_message c ep"
  let ?W = "\<lambda>i. create_worker_runtime ''pod'' (DynamicPollingExecutor (ids i))"
  let ?rs = "map (\<lambda>i. process (?W i) ?req) [0..<2]"
  have c: "connection_list ?h = map (\<lambda>i. [?W i]) [0..<2]"
    by (simp add: dynamic_polling_head_def create_head_def)
  have u: "uses_after ?h = None" "uses_before ?h = None"
    by (simp_all add: dynamic_polling_head_def create_head_def)
  have e: "endpoint ?req = ep" by (simp add: create_test_data_message_def)
  have "fst (head_process ?h ?req) = fst (dispatch_all ?h ?req)"
    using assms(2) by (simp add: head_process_def u e split: prod.splits)
  also have "\<dots> = combine ?h ?req ?rs"
    by (rule dispatch_all_one_replica[OF c])
  also have "\<dots> = reduce ?req ?rs"
    by (simp add: combine_many u)
  finally have "docs (fst (head_process ?h ?req)) = reduce_docs (map docs ?rs)"
    by (simp add: reduce_def)
  also have "map docs ?rs =
      map (\<lambda>i. [\<lparr>doc_id = c, doc_text = ''client'', tags = []\<rparr>]
                @ [\<lparr>doc_id = ids i, doc_text = ''added'', tags = []\<rparr>]) [0..<2]"
    using process_DynamicPollingExecutor[OF assms(3)] by simp
  also have "reduce_docs \<dots> =
      [\<lparr>doc_id = c, doc_text = ''client'', tags = []\<rparr>]
        @ map (\<lambda>i. \<lparr>doc_id = ids i, doc_text = ''added'', tags = []\<rparr>) [0..<2]"
    by (rule reduce_docs_blocks) (use assms(1) in \<open>simp_all add: numeral_2_eq_2\<close>)
  finally show ?thesis by simp
qed

lemma dynamic_polling_any:
  assumes "resolve_polling (dynamic_polling_head ids p) ep = PollingANY"
    and "ep \<in> {''/any'', ''/all'', ''/no_polling''}"
  shows "length (docs (fst (head_process (dynamic_polling_head ids p)
                              (create_test_data_message c ep)))) = 1 + 1"
proof -
  let ?h = "dynamic_polling_head ids p"
  let ?req = "create_test_data_message c ep"
  let ?W = "\<lambda>i. create_worker_runtime ''pod'' (DynamicPollingExecutor (ids i))"
  have c: "connection_list ?h = map (\<lambda>i. [?W i]) [0..<2]"
    by (simp add: dynamic_polling_head_def create_head_def)
  have u: "uses_after ?h = None" "uses_before ?h = None"
    by (simp_all add: dynamic_polling_head_def create_head_def)
  have e: "endpoint ?req = ep" by (simp add: create_test_data_message_def)
  have "fst (head_process ?h ?req) = fst (dispatch_any ?h ?req)"
    using assms(1) by (simp add: head_process_def u e split: prod.splits)
  also have "\<dots> = process (?W (shard_counter ?h mod 2)) ?req"
    by (rule dispatch_any_one_replica[OF c]) simp
  finally show ?thesis
    using process_DynamicPollingExecutor[OF assms(2)] by simp
qed

lemma test_dynamic_polling_with_config:
  assumes "distinct [c, ids 0, ids 1]"
  shows "length (docs (fst (head_process (dynamic_polling_head ids p)
                              (create_test_data_message c ''/all'')))) = 1 + 2"
    and "length (docs (fst (head_process (dynamic_polling_head ids p)
                              (create_test_data_message c ''/any'')))) = 1 + 1"
    and "length (docs (fst (head_process (dynamic_polling_head ids PollingANY)
                              (create_test_data_message c ''/no_polling'')))) = 1 + 1"
    and "length (docs (fst (head_process (dynamic_polling_head ids PollingALL)
                              (create_test_data_message c ''/no_polling'')))) = 1 + 2"
proof -
  show "length (docs (fst (head_process (dynamic_polling_head ids p)
                              (create_test_data_message c ''/all'')))) = 1 + 2"
    by (rule dynamic_polling_all[OF assms])
       (simp_all add: resolve_polling_def dynamic_polling_head_def create_head_def)
  show "length (docs (fst (head_process (dynamic_polling_head ids p)
                              (create_test_data_message c ''/any'')))) = 1 + 1"
    by (rule dynamic_polling_any)
       (simp_all add: resolve_polling_def dynamic_polling_head_def create_head_def)
  show "length (docs (fst (head_process (dynamic_polling_head ids PollingANY)
                              (create_test_data_message c ''/no_polling'')))) = 1 + 1"
    by (rule dynamic_polling_any)
       (simp_all add: resolve_polling_def dynamic_polling_head_def create_head_def)
  show "length (docs (fst (head_process (dynamic_polling_head ids PollingALL)
                              (create_test_data_message c ''/no_polling'')))) = 1 + 2"
    by (rule dynamic_polling_all[OF assms])
       (simp_all add: resolve_polling_def dynamic_polling_head_def create_head_def)
qed

subsection \<open>The traversal of the graph\<close>

text \<open>Running a ready pod keeps the invariant of the traversal.\<close>

lemma ready_new: "ready g st p \<Longrightarrow> p \<notin> set (map fst (responded st))"
  by (simp add: ready_def)

lemma run_pod_inv:
  assumes inv: "traversal_inv g hs st" and r: "ready g st p" and p: "p \<in> set (pod_names g)"
  shows "traversal_inv g hs (run_pod g req st p)"
proof -
  from r obtain h where h: "map_of (heads st) p = Some h" by (auto simp: ready_def)
  then have key: "p \<in> fst ` set (heads st)" by (metis domI dom_map_of_conv_image_fst)
  obtain resp h' where hp:
    "head_process h (case fan_in (inputs_of g req st p) of None \<Rightarrow> req | Some r \<Rightarrow> r)
       = (resp, h')"
    by (cases "head_process h (case fan_in (inputs_of g req st p) of None \<Rightarrow> req
          | Some r \<Rightarrow> r)")
  have run: "run_pod g req st p =
      st\<lparr>responded := responded st @ [(p, resp)], heads := AList.update p h' (heads st)\<rparr>"
    using h hp by (simp add: run_pod_def)
  from key have dom: "fst ` set (AList.update p h' (heads st)) = fst ` set (heads st)"
    by (auto simp: dom_update)
  from inv r p dom show ?thesis
    unfolding run traversal_inv_def
    by (auto simp: ready_def)
qed

text \<open>The traversal keeps its invariant, and stops only when no pod is ready.\<close>

lemma traverse_inv:
  "traversal_inv g hs st \<Longrightarrow>
     traversal_inv g hs (traverse g req st) \<and>
     find (ready g (traverse g req st)) (pod_names g) = None"
proof (induction g req st rule: traverse.induct)
  case (1 g req st)
  show ?case
  proof (cases "find (ready g st) (pod_names g)")
    case None
    with 1(2) show ?thesis by (subst (1 2) traverse.simps) simp
  next
    case (Some p)
    then have "p \<in> set (pod_names g)" and "ready g st p" by (auto simp: find_Some_iff)
    from run_pod_inv[OF 1(2) this(2) this(1)] have "traversal_inv g hs (run_pod g req st p)" .
    from 1(1)[OF Some this] Some show ?thesis by (subst (1 2) traverse.simps) simp
  qed
qed

text \<open>
  In a well-formed acyclic graph no pod is left out: a pod that has not responded when
  nothing is ready has a predecessor that has not responded either, of lower rank.
\<close>

lemma predecessor_is_pod:
  assumes "q \<in> set (predecessors g p)" and "q \<noteq> ''start-gateway''"
    and "successors g ''end-gateway'' = []"
  shows "q \<in> set (pod_names g)"
  using assms by (auto simp: predecessors_def pod_names_def is_gateway_def)

lemma predecessor_rank:
  assumes "acyclic_by rank g" and "q \<in> set (predecessors g p)"
  shows "rank q < rank p"
proof -
  from assms(2) have "p \<in> set (successors g q)" by (simp add: predecessors_def)
  then obtain ss where "map_of g q = Some ss" and "p \<in> set ss"
    by (cases "map_of g q") (auto simp: successors_def)
  then have "(q, ss) \<in> set g" by (auto dest: map_of_SomeD)
  with assms(1) \<open>p \<in> set ss\<close> show ?thesis
    by (auto simp: acyclic_by_def list_all_iff)
qed

lemma all_pods_respond:
  assumes acyc: "acyclic_by rank g"
    and preds: "\<forall>p \<in> set (pod_names g). predecessors g p \<noteq> [] \<and> p \<in> fst ` set hs"
    and sink: "successors g ''end-gateway'' = []"
    and inv: "traversal_inv g hs st"
    and stuck: "find (ready g st) (pod_names g) = None"
  shows "p \<in> set (pod_names g) \<Longrightarrow> p \<in> set (map fst (responded st))"
proof (induction "rank p" arbitrary: p rule: less_induct)
  case less
  show ?case
  proof (rule ccontr)
    assume new: "p \<notin> set (map fst (responded st))"
    from stuck less.prems have "\<not> ready g st p" by (auto simp: find_None_iff)
    moreover from preds less.prems have "predecessors g p \<noteq> []" and "p \<in> fst ` set hs" by auto
    moreover from inv this(2) have "map_of (heads st) p \<noteq> None"
      by (metis traversal_inv_def domIff dom_map_of_conv_image_fst)
    ultimately obtain q where q: "q \<in> set (predecessors g p)" "q \<noteq> ''start-gateway''"
      "q \<notin> set (map fst (responded st))"
      using new by (auto simp: ready_def list_all_iff)
    from predecessor_is_pod[OF q(1,2) sink] have "q \<in> set (pod_names g)" .
    from less.hyps[OF predecessor_rank[OF acyc q(1)] this] q(3) show False by simp
  qed
qed

text \<open>
  When all its predecessors have responded, a node gets one response from each of them;
  and whatever it gets comes from a predecessor.
\<close>

lemma inputs_of_length:
  assumes "\<forall>q \<in> set (predecessors g p). q = ''start-gateway'' \<or> q \<in> set (map fst (responded st))"
  shows "length (inputs_of g req st p) = length (predecessors g p)"
proof -
  let ?f = "\<lambda>q. if q = ''start-gateway'' then [req]
              else (case map_of (responded st) q of None \<Rightarrow> [] | Some r \<Rightarrow> [r])"
  have one: "length (?f q) = 1" if "q \<in> set (sort (predecessors g p))" for q
  proof (cases "q = ''start-gateway''")
    case True
    then show ?thesis by simp
  next
    case False
    with assms that have "q \<in> fst ` set (responded st)" by auto
    then have "map_of (responded st) q \<noteq> None"
      by (simp add: map_of_eq_None_iff)
    with False show ?thesis by auto
  qed
  have "length (inputs_of g req st p) = sum_list (map (\<lambda>q. length (?f q)) (sort (predecessors g p)))"
    by (simp add: inputs_of_def length_concat comp_def)
  also have "\<dots> = sum_list (map (\<lambda>q. 1) (sort (predecessors g p)))"
    using one by (intro arg_cong[where f = sum_list] map_cong) auto
  also have "\<dots> = length (predecessors g p)"
    by (simp add: sum_list_triv)
  finally show ?thesis .
qed




lemma fan_in_length:
  "length (case fan_in rs of None \<Rightarrow> [] | Some r \<Rightarrow> [r]) = (if rs = [] then 0 else 1)"
  by (cases rs; cases "tl rs") (auto simp: fan_in_def)

text \<open>
  The traversal of a well-formed acyclic graph: every pod responds exactly once, and the
  client is answered once when some node leads to \<^verbatim>\<open>end-gateway\<close>.
\<close>

lemma traversal_complete:
  fixes gw :: gateway and req :: request
  assumes acyc: "acyclic_by rank (graph_description gw)" and wf: "well_formed gw"
  defines "g \<equiv> graph_description gw"
  defines "st \<equiv> traverse g req \<lparr>responded = [], heads = deployments_addresses gw\<rparr>"
  shows "distinct (map fst (responded st))"
    and "set (map fst (responded st)) = set (pod_names g)"
    and "length (fst (handle_request gw req)) =
           (if predecessors g ''end-gateway'' = [] then 0 else 1)"
    and "fst ` set (heads st) = fst ` set (deployments_addresses gw)"
proof -
  let ?hs = "deployments_addresses gw"
  have "traversal_inv g ?hs \<lparr>responded = [], heads = ?hs\<rparr>"
    by (simp add: traversal_inv_def)
  from traverse_inv[OF this, of req]
  have inv: "traversal_inv g ?hs st" and stuck: "find (ready g st) (pod_names g) = None"
    by (simp_all add: st_def)
  from wf have preds: "\<forall>p \<in> set (pod_names g). predecessors g p \<noteq> [] \<and> p \<in> fst ` set ?hs"
    and sink: "successors g ''end-gateway'' = []"
    by (auto simp: well_formed_def g_def list_all_iff dom_map_of_conv_image_fst[symmetric])
  from acyc have acyc': "acyclic_by rank g" by (simp add: g_def)
  from inv show d: "distinct (map fst (responded st))" by (simp add: traversal_inv_def)
  from inv all_pods_respond[OF acyc' preds sink inv stuck]
  show s: "set (map fst (responded st)) = set (pod_names g)"
    by (auto simp: traversal_inv_def)
  from inv show "fst ` set (heads st) = fst ` set ?hs" by (simp add: traversal_inv_def)
  have "\<forall>q \<in> set (predecessors g ''end-gateway'').
          q = ''start-gateway'' \<or> q \<in> set (map fst (responded st))"
    using predecessor_is_pod[OF _ _ sink] s by blast
  from inputs_of_length[OF this, of req]
  have "inputs_of g req st ''end-gateway'' = [] \<longleftrightarrow> predecessors g ''end-gateway'' = []"
    by (metis length_0_conv)
  then show "length (fst (handle_request gw req)) =
      (if predecessors g ''end-gateway'' = [] then 0 else 1)"
    by (simp add: handle_request_def Let_def fan_in_length st_def g_def)
qed


text \<open>
  A gateway stays well formed from one request to the next, so that a stream of requests
  is answered request by request.
\<close>

lemma handle_request_well_formed:
  assumes "acyclic_by rank (graph_description gw)" and "well_formed gw"
  shows "graph_description (snd (handle_request gw req)) = graph_description gw"
    and "well_formed (snd (handle_request gw req))"
proof -
  let ?st = "traverse (graph_description gw) req
      \<lparr>responded = [], heads = deployments_addresses gw\<rparr>"
  show g: "graph_description (snd (handle_request gw req)) = graph_description gw"
    by (simp add: handle_request_def Let_def)
  have h: "deployments_addresses (snd (handle_request gw req)) = heads ?st"
    by (simp add: handle_request_def Let_def)
  from traversal_complete(4)[OF assms, of req]
  have "fst ` set (heads ?st) = fst ` set (deployments_addresses gw)" .
  then have "map_of (heads ?st) p \<noteq> None \<longleftrightarrow> map_of (deployments_addresses gw) p \<noteq> None" for p
    by (simp add: map_of_eq_None_iff)
  with assms(2) show "well_formed (snd (handle_request gw req))"
    by (simp add: well_formed_def g h)
qed

lemma stream_length:
  assumes "acyclic_by rank (graph_description gw)" and "well_formed gw"
  shows "length (fst (stream gw reqs)) =
           (if predecessors (graph_description gw) ''end-gateway'' = [] then 0 else length reqs)"
  using assms
proof (induction reqs arbitrary: gw)
  case Nil
  show ?case by simp
next
  case (Cons req reqs)
  obtain out gw' where h: "handle_request gw req = (out, gw')" by (cases "handle_request gw req")
  from handle_request_well_formed[OF Cons.prems, of req] h
  have g: "graph_description gw' = graph_description gw" and wf: "well_formed gw'" by simp_all
  from Cons.prems(1) g have a: "acyclic_by rank (graph_description gw')" by simp
  from traversal_complete(3)[OF Cons.prems, of req] h
  have o: "length out = (if predecessors (graph_description gw) ''end-gateway'' = [] then 0 else 1)"
    by simp
  from Cons.IH[OF a wf] g o h show ?case
    by (cases "stream gw' reqs") simp
qed

text \<open>The graph of the tests: acyclic, well formed, with two pods before \<^verbatim>\<open>end-gateway\<close> and three paths.\<close>

lemma complete_graph_acyclic: "acyclic_by complete_graph_rank complete_graph_dict"
  by (simp add: acyclic_by_def complete_graph_dict_def complete_graph_rank_def)

lemma complete_graph_pods:
  "pod_names complete_graph_dict =
     [''pod0'', ''pod1'', ''pod2'', ''pod4'', ''merger'', ''pod5'', ''pod3'', ''pod6'', ''pod_last'']"
  by (simp add: pod_names_def complete_graph_dict_def is_gateway_def)

lemma complete_graph_well_formed: "well_formed (flow_topology complete_graph_dict)"
  unfolding well_formed_def
  by (simp add: flow_topology_def complete_graph_pods)
     (simp add: complete_graph_dict_def predecessors_def successors_def is_gateway_def)

lemma complete_graph_end:
  "predecessors complete_graph_dict ''end-gateway'' = [''pod1'', ''pod_last'']"
  by (simp add: predecessors_def complete_graph_dict_def successors_def)


lemma flow_topology_graph: "graph_description (flow_topology g) = g"
  by (simp add: flow_topology_def)

text \<open>
  \<^verbatim>\<open>test_runtimes_flow_topology\<close> (test_runtimes.py, lines 196-210): on
  \<^verbatim>\<open>complete_graph_dict\<close> the client's 20 requests are answered by 20 responses.
\<close>

lemma test_runtimes_flow_topology:
  "length (fst (stream (flow_topology complete_graph_dict) (post ''/'' (async_inputs ids)))) = 20"
proof -
  have a: "acyclic_by complete_graph_rank (graph_description (flow_topology complete_graph_dict))"
    by (simp add: flow_topology_graph complete_graph_acyclic)
  from stream_length[OF a complete_graph_well_formed, of "post ''/'' (async_inputs ids)"]
  show ?thesis
    by (simp add: flow_topology_graph complete_graph_end post_def async_inputs_def)
qed

text \<open>
  The same test, line 211: the first response carries one document. The two responses
  that reach \<^verbatim>\<open>end-gateway\<close>, of \<^verbatim>\<open>pod1\<close> and of \<^verbatim>\<open>pod_last\<close>, both carry the
  client's document, which the merge keeps once.
\<close>

lemma test_runtimes_flow_topology_docs:
  "map docs (fst (handle_request (flow_topology complete_graph_dict) first_request)) =
     [docs first_request]"
  by code_simp




end
